theory Spec2Isabelle
  imports Complex_Main "HOL-Library.Word" "HOL-Library.Monad_Syntax" "HOL-Library.Log_Nat"
begin

section \<open>Data model of \<open>main.c\<close>\<close>

text \<open>
  The firmware has two interrupt handlers, \<open>adc_handler\<close> (sampling, filtering, DAC
  output, digit decomposition) and \<open>display_handler\<close> (multiplexing of the four
  seven-segment digits). They share the global array \<open>display_number\<close>; all the other
  variables are function-local statics. The hardware registers (timer flags, ADC result)
  are inputs of the handlers; the calls \<open>write_to_dac\<close> and \<open>display_dig\<close> are their
  outputs.
\<close>

type_synonym UINT8 = "8 word"
type_synonym UINT32 = "32 word"

definition RESOLUTION :: nat where
  "RESOLUTION = 12"

definition DISPLAY_DIGIT_SIZE_MAX :: nat where
  "DISPLAY_DIGIT_SIZE_MAX = 4"

text \<open>
  The filter variables are C \<open>float\<close>s. The embedding leaves the float type \<open>'f\<close> and
  its arithmetic open: \<open>+\<close>, \<open>-\<close>, \<open>*\<close> and \<open>/\<close> come from the syntactic classes
  \<open>plus\<close>, \<open>minus\<close>, \<open>times\<close> and \<open>inverse\<close>, which carry no laws, so nothing
  proved at this generality relies on associativity, exactness or the absence of rounding.
  The conversions into \<open>float\<close> that the C compiler inserts are the fields of \<open>fpu\<close>:
  \<^item> \<open>uint32_to_float\<close>: the conversion in \<open>x = adc_raw\<close>;
  \<^item> \<open>int_to_float\<close>: the conversion of the integer literals \<open>0\<close>, \<open>1\<close>, \<open>4095\<close>,
    \<open>1023\<close> that meet a \<open>float\<close> operand or parameter;
  \<^item> \<open>omega\<close>: the value of \<open>static const float omega = BW*2*PI/SAMP_FREQ\<close>, a
    \<open>double\<close> constant expression narrowed to \<open>float\<close>.
\<close>

record 'f fpu =
  uint32_to_float :: "UINT32 \<Rightarrow> 'f"
  int_to_float :: "int \<Rightarrow> 'f"
  omega :: "'f"

text \<open>
  The statics of \<open>adc_handler\<close> (\<open>adc_raw\<close>, \<open>adc_volt\<close>, \<open>x\<close>, \<open>y\<close>, \<open>y_prev\<close>,
  \<open>x_prev\<close>), the static \<open>dig\<close> of \<open>display_handler\<close> and the global
  \<open>display_number\<close>. The C variables \<open>x\<close> and \<open>y\<close> are the fields \<open>x_cur\<close> and
  \<open>y_cur\<close>.
\<close>

record 'f firmware =
  display_number :: "UINT8 list"
  adc_raw :: UINT32
  adc_volt :: UINT32
  x_cur :: 'f
  y_cur :: 'f
  y_prev :: 'f
  x_prev :: 'f
  dig :: UINT8

text \<open>
  What a handler sends to the peripherals: the argument of \<open>write_to_dac\<close>, and the five
  arguments of \<open>display_dig\<close> in the order of the call. \<open>WriteToDac\<close> carries the value
  of the argument expression, before its conversion to the parameter type of
  \<open>write_to_dac\<close>; that function and \<open>display_dig\<close> are declared in headers that are not
  among the sources. By the specification's reading of the call of \<open>display_dig\<close>, the
  second argument is the digit value, the third the digit position, the fourth the decimal
  point and the fifth the blanking flag.
\<close>

datatype 'f effect =
    WriteToDac 'f
  | DisplayDig nat UINT8 UINT8 bool bool

definition init :: "'f fpu \<Rightarrow> 'f firmware" where
  "init fp = \<lparr> display_number = [1, 1, 1, 1],
               adc_raw = 0, adc_volt = 0,
               x_cur = int_to_float fp 0, y_cur = int_to_float fp 0,
               y_prev = int_to_float fp 0, x_prev = int_to_float fp 0,
               dig = 0 \<rparr>"

section \<open>Array accesses\<close>

text \<open>
  A C array access outside the array is undefined behaviour; here it is the value
  \<open>None\<close>. The index of a read is a C \<open>int\<close> and may be negative.
\<close>

definition load :: "'a list \<Rightarrow> int \<Rightarrow> 'a option" where
  "load xs i = (if 0 \<le> i \<and> i < int (length xs) then Some (xs ! nat i) else None)"

definition store :: "'a list \<Rightarrow> nat \<Rightarrow> 'a \<Rightarrow> 'a list option" where
  "store xs i v = (if i < length xs then Some (xs[i := v]) else None)"

section \<open>The rescaling helpers\<close>

text \<open>
  Modelled from the spec: \<open>map32\<close> is declared in \<open>PeriphBoard/utilities.h\<close>, which
  is not among the sources. The specification gives the rescaling as the linear
  interpolation \<open>out = out_lo + (in - in_lo) * (out_hi - out_lo) / (in_hi - in_lo)\<close>.
  \<open>map32\<close> computes it on \<open>UINT32\<close>: the operations wrap modulo \<open>2 ^ 32\<close> and the
  division truncates. The call of the source has \<open>in_hi \<noteq> in_lo\<close>, so the division
  by zero (undefined in C, \<open>0\<close> here) does not occur.
\<close>

definition map32 :: "UINT32 \<Rightarrow> UINT32 \<Rightarrow> UINT32 \<Rightarrow> UINT32 \<Rightarrow> UINT32 \<Rightarrow> UINT32" where
  "map32 v in_lo in_hi out_lo out_hi =
     out_lo + (v - in_lo) * (out_hi - out_lo) div (in_hi - in_lo)"

text \<open>
  Modelled from the spec: \<open>mapf\<close> is declared in \<open>PeriphBoard/utilities.h\<close>, which is
  not among the sources. It is the same interpolation, computed in the float arithmetic,
  with the operations in the order of the formula.
\<close>

definition mapf :: "'f \<Rightarrow> 'f \<Rightarrow> 'f \<Rightarrow> 'f \<Rightarrow> 'f \<Rightarrow> ('f :: {plus, minus, times, inverse})" where
  "mapf v in_lo in_hi out_lo out_hi =
     out_lo + (v - in_lo) * (out_hi - out_lo) / (in_hi - in_lo)"

section \<open>The sampling task\<close>

text \<open>
  The upper end of the input range handed to \<open>mapf\<close> is selected by the preprocessor:
  \<open>0xFFFF\<close> when \<open>RESOLUTION == 16\<close>, \<open>4095\<close> when \<open>RESOLUTION == 12\<close>.
\<close>

definition mapf_in_max :: int where
  "mapf_in_max = (if RESOLUTION = 16 then 0xFFFF else 4095)"

text \<open>
  Lines 183 to 186: the four assignments to \<open>display_number[0..3]\<close>. Each right-hand
  side is a \<open>UINT32\<close> narrowed to \<open>UINT8\<close>.
\<close>

definition write_digits :: "UINT32 \<Rightarrow> UINT8 list \<Rightarrow> UINT8 list option" where
  "write_digits volt buf = do {
     b0 \<leftarrow> store buf 0 (ucast (volt mod 10));
     b1 \<leftarrow> store b0 1 (ucast ((volt mod 100) div 10));
     b2 \<leftarrow> store b1 2 (ucast ((volt mod 1000) div 100));
     store b2 3 (ucast ((volt mod 10000) div 1000))
   }"

text \<open>
  \<open>adc_handler\<close>: \<open>flag\<close> is \<open>adc_timer->INTFLAG.reg & 0x1\<close> and \<open>sample\<close> the value
  returned by \<open>read_adc()\<close>. The assignments are made in the order of the source.
\<close>

definition adc_handler ::
  "('f :: {plus, minus, times, inverse}) fpu \<Rightarrow> bool \<Rightarrow> UINT32 \<Rightarrow> 'f firmware
     \<Rightarrow> ('f effect list \<times> 'f firmware) option" where
  "adc_handler fp flag sample st =
     (if flag then
        let s1 = st\<lparr>adc_raw := sample\<rparr>;
            s2 = s1\<lparr>x_cur := uint32_to_float fp (adc_raw s1)\<rparr>;
            s3 = s2\<lparr>y_cur := (int_to_float fp 1 - omega fp) * y_prev s2
                                + omega fp * x_prev s2\<rparr>;
            out = WriteToDac (mapf (y_cur s3) (int_to_float fp 0)
                                (int_to_float fp mapf_in_max)
                                (int_to_float fp 0) (int_to_float fp 1023));
            s4 = s3\<lparr>y_prev := y_cur s3\<rparr>;
            s5 = s4\<lparr>x_prev := x_cur s4\<rparr>;
            s6 = s5\<lparr>adc_volt := map32 (adc_raw s5) 0 0xFFFF 0 3300\<rparr>
        in do {
          buf \<leftarrow> write_digits (adc_volt s6) (display_number s6);
          Some ([out], s6\<lparr>display_number := buf\<rparr>)
        }
      else Some ([], st))"

section \<open>The display task\<close>

text \<open>Line 251: \<open>dig = (dig == DISPLAY_DIGIT_SIZE_MAX-1) ? 0 : (dig+1)\<close>.\<close>

definition next_dig :: "UINT8 \<Rightarrow> UINT8" where
  "next_dig d = (if uint d = int DISPLAY_DIGIT_SIZE_MAX - 1 then 0 else d + 1)"

text \<open>
  \<open>display_handler\<close>: \<open>flag\<close> is \<open>disp_timer->INTFLAG.reg & 0x1\<close>. The index
  \<open>DISPLAY_DIGIT_SIZE_MAX-1-dig\<close> is computed in \<open>int\<close>, after the promotion of \<open>dig\<close>.
\<close>

definition display_handler ::
  "bool \<Rightarrow> 'f firmware \<Rightarrow> ('f effect list \<times> 'f firmware) option" where
  "display_handler flag st =
     (if flag then do {
        d \<leftarrow> load (display_number st) (int DISPLAY_DIGIT_SIZE_MAX - 1 - uint (dig st));
        Some ([DisplayDig 0 d (dig st) False False], st\<lparr>dig := next_dig (dig st)\<rparr>)
      }
      else Some ([], st))"

section \<open>Interrupt sequences\<close>

text \<open>
  \<open>TC6_Handler\<close> calls \<open>adc_handler\<close> and \<open>TC7_Handler\<close> calls \<open>display_handler\<close>. An
  event is one interrupt, with what the handler finds in the registers it reads. The
  handlers run to completion, one after the other.
\<close>

datatype event = TC6 bool UINT32 | TC7 bool

fun handle :: "('f :: {plus, minus, times, inverse}) fpu \<Rightarrow> event \<Rightarrow> 'f firmware
    \<Rightarrow> ('f effect list \<times> 'f firmware) option" where
  "handle fp (TC6 flag sample) st = adc_handler fp flag sample st"
| "handle fp (TC7 flag) st = display_handler flag st"

fun run :: "('f :: {plus, minus, times, inverse}) fpu \<Rightarrow> event list \<Rightarrow> 'f firmware
    \<Rightarrow> ('f effect list \<times> 'f firmware) option" where
  "run fp [] st = Some ([], st)"
| "run fp (e # es) st = do {
     (o1, s1) \<leftarrow> handle fp e st;
     (o2, s2) \<leftarrow> run fp es s1;
     Some (o1 @ o2, s2)
   }"

section \<open>Notions used by the properties\<close>

text \<open>The digit position that a peripheral call drives, if it drives one.\<close>

fun position :: "'f effect \<Rightarrow> UINT8 option" where
  "position (DisplayDig t v p dp bl) = Some p"
| "position (WriteToDac v) = None"

text \<open>
  The decomposition in the form the specification gives it, \<open>d\<^sub>i = (v / 10\<^sup>i) % 10\<close>,
  and the value of four digits, least significant first.
\<close>

definition digits_spec :: "nat \<Rightarrow> nat list" where
  "digits_spec v = [v mod 10, (v div 10) mod 10, (v div 100) mod 10, (v div 1000) mod 10]"

definition recombine :: "nat list \<Rightarrow> nat" where
  "recombine ds = ds ! 0 + 10 * ds ! 1 + 100 * ds ! 2 + 1000 * ds ! 3"

definition is_digit :: "UINT8 \<Rightarrow> bool" where
  "is_digit d = (d \<le> 9)"

text \<open>
  The arithmetic without rounding: \<open>float\<close> read as \<open>real\<close>, every conversion exact,
  and \<open>omega\<close> the exact value of the initialiser \<open>BW*2*PI/SAMP_FREQ\<close> under the
  macros of the source, that is \<open>0.628\<close>. It is the instance at which the general
  theorems are evaluated; the firmware's single-precision arithmetic is another
  instance, which rounds.
\<close>

definition SAMP_FREQ :: real where
  "SAMP_FREQ = 1000"

definition PI :: real where
  "PI = 3.14"

definition BW :: real where
  "BW = 100"

definition exact_fpu :: "real fpu" where
  "exact_fpu = \<lparr> uint32_to_float = (\<lambda>w. real (unat w)),
                  int_to_float = real_of_int,
                  omega = BW * 2 * PI / SAMP_FREQ \<rparr>"

section \<open>Single-precision arithmetic\<close>

text \<open>
  The C type \<open>float\<close> of the target is IEEE 754 binary32, and \<open>double\<close> is binary64;
  every operation returns the exact result rounded to the nearest representable value, ties
  to the value with an even significand. \<open>round_to p emin\<close> is this rounding for a
  significand of \<open>p\<close> bits and smallest normal exponent \<open>emin\<close>, on the rationals:
  \<open>ilog2\<close> is the binary exponent of a positive rational, the rounding unit of a value
  with exponent \<open>e\<close> is \<open>2 powi (e - (p - 1))\<close>, and below \<open>2 powi emin\<close> the unit stays
  that of \<open>emin\<close> (subnormal values). Overflow to an infinity and NaN are not represented:
  the values of the filter stay far below \<open>2 powi 128\<close>.
\<close>

definition round_half_even :: "rat \<Rightarrow> int" where
  "round_half_even t =
     (let f = \<lfloor>t\<rfloor>; r = t - of_int f
      in if r < 1 / 2 then f else if 1 / 2 < r then f + 1 else if even f then f else f + 1)"

definition ilog2 :: "rat \<Rightarrow> int" where
  "ilog2 x = (if 1 \<le> x then int (floorlog 2 (nat \<lfloor>x\<rfloor>)) - 1
              else - int (floorlog 2 (nat (\<lceil>1 / x\<rceil> - 1))))"

definition round_to :: "nat \<Rightarrow> int \<Rightarrow> rat \<Rightarrow> rat" where
  "round_to p emin x =
     (if x = 0 then 0
      else let e = max (ilog2 \<bar>x\<bar>) emin; u = 2 powi (e - (int p - 1))
           in of_int (round_half_even (x / u)) * u)"

definition round32 :: "rat \<Rightarrow> rat" where
  "round32 = round_to 24 (- 126)"

definition round64 :: "rat \<Rightarrow> rat" where
  "round64 = round_to 53 (- 1022)"

text \<open>
  A \<open>float\<close> is the rational it holds; the four operations round their exact result to
  binary32, each on its own (the target has no floating-point unit: no fused multiply-add
  and no wider intermediate precision), and the order is that of the values.
\<close>

datatype binary32 = Binary32 (value32: rat)

instantiation binary32 :: "{plus, minus, times, inverse, ord}"
begin

definition plus_binary32 :: "binary32 \<Rightarrow> binary32 \<Rightarrow> binary32" where
  "a + b = Binary32 (round32 (value32 a + value32 b))"

definition minus_binary32 :: "binary32 \<Rightarrow> binary32 \<Rightarrow> binary32" where
  "a - b = Binary32 (round32 (value32 a - value32 b))"

definition times_binary32 :: "binary32 \<Rightarrow> binary32 \<Rightarrow> binary32" where
  "a * b = Binary32 (round32 (value32 a * value32 b))"

definition divide_binary32 :: "binary32 \<Rightarrow> binary32 \<Rightarrow> binary32" where
  "a div b = Binary32 (round32 (value32 a / value32 b))"

definition inverse_binary32 :: "binary32 \<Rightarrow> binary32" where
  "inverse a = Binary32 (round32 (1 / value32 a))"

definition less_eq_binary32 :: "binary32 \<Rightarrow> binary32 \<Rightarrow> bool" where
  "a \<le> b \<longleftrightarrow> value32 a \<le> value32 b"

definition less_binary32 :: "binary32 \<Rightarrow> binary32 \<Rightarrow> bool" where
  "a < b \<longleftrightarrow> value32 a < value32 b"

instance ..

end

text \<open>
  The firmware's arithmetic. The conversions from \<open>UINT32\<close> and from \<open>int\<close> round the
  integer to binary32. The initialiser of \<open>omega\<close>, \<open>BW*2*PI/SAMP_FREQ\<close>, expands to
  \<open>100*2*3.14/1000\<close>: the literal \<open>3.14\<close>, the product with the \<open>int\<close> \<open>200\<close> and the
  quotient are \<open>double\<close>s, and the result is narrowed to \<open>float\<close>.
\<close>

definition binary32_fpu :: "binary32 fpu" where
  "binary32_fpu =
     \<lparr> uint32_to_float = (\<lambda>w. Binary32 (round32 (of_nat (unat w)))),
       int_to_float = (\<lambda>i. Binary32 (round32 (of_int i))),
       omega = Binary32 (round32 (round64 (round64 (of_int (100 * 2) * round64 3.14) / 1000))) \<rparr>"

section \<open>Auxiliary facts\<close>

subsection \<open>Cursor values, buffers of four cells and decimal digits\<close>

lemma dig_cases: "(d :: UINT8) \<le> 3 \<Longrightarrow> d = 0 \<or> d = 1 \<or> d = 2 \<or> d = 3"
  by unat_arith

lemma list4: "length buf = 4 \<Longrightarrow> \<exists>a b c d. buf = [a, b, c, d]"
  by (auto simp: length_Suc_conv numeral_eq_Suc)

lemma write_digits_len:
  assumes "length buf = 4"
  shows "write_digits v buf =
     Some [ucast (v mod 10), ucast ((v mod 100) div 10),
           ucast ((v mod 1000) div 100), ucast ((v mod 10000) div 1000)]"
proof -
  from assms obtain a b c d where "buf = [a, b, c, d]" using list4 by blast
  then show ?thesis by (simp add: write_digits_def store_def)
qed

lemma mod_div_digit: "0 < a \<Longrightarrow> (n :: nat) mod (a * b) div a = n div a mod b"
  by (simp add: mod_mult2_eq)

lemma mod100_div10: "(n :: nat) mod 100 div 10 = n div 10 mod 10"
  using mod_div_digit[of 10 n 10] by simp

lemma mod1000_div100: "(n :: nat) mod 1000 div 100 = n div 100 mod 10"
  using mod_div_digit[of 100 n 10] by simp

lemma mod10000_div1000: "(n :: nat) mod 10000 div 1000 = n div 1000 mod 10"
  using mod_div_digit[of 1000 n 10] by simp

lemma mod10_lt_256: "(n :: nat) mod 10 < 256"
  by (rule less_trans[OF mod_less_divisor]) simp_all

lemma unat_digit0: "unat (ucast ((v :: UINT32) mod 10) :: UINT8) = unat v mod 10"
  by (simp add: unsigned_ucast_eq take_bit_eq_mod unat_mod mod10_lt_256)

lemma unat_digit1:
  "unat (ucast (((v :: UINT32) mod 100) div 10) :: UINT8) = unat v div 10 mod 10"
  by (simp add: unsigned_ucast_eq take_bit_eq_mod unat_mod unat_div mod100_div10 mod10_lt_256)

lemma unat_digit2:
  "unat (ucast (((v :: UINT32) mod 1000) div 100) :: UINT8) = unat v div 100 mod 10"
  by (simp add: unsigned_ucast_eq take_bit_eq_mod unat_mod unat_div mod1000_div100 mod10_lt_256)

lemma unat_digit3:
  "unat (ucast (((v :: UINT32) mod 10000) div 1000) :: UINT8) = unat v div 1000 mod 10"
  by (simp add: unsigned_ucast_eq take_bit_eq_mod unat_mod unat_div mod10000_div1000 mod10_lt_256)

lemma digit_le9: "unat (d :: UINT8) = n mod 10 \<Longrightarrow> d \<le> 9"
  by (simp add: word_le_nat_alt)

lemma written_cells_are_digits:
  fixes v :: UINT32
  shows "is_digit (ucast (v mod 10))" "is_digit (ucast ((v mod 100) div 10))"
        "is_digit (ucast ((v mod 1000) div 100))" "is_digit (ucast ((v mod 10000) div 1000))"
  unfolding is_digit_def
  by (rule digit_le9, rule unat_digit0 unat_digit1 unat_digit2 unat_digit3)+

subsection \<open>One activation of a handler\<close>

text \<open>
  With the four cells of \<open>display_number\<close> in place and the flag set, \<open>adc_handler\<close>
  returns; this is its result, assignment by assignment.
\<close>

lemma adc_handler_True:
  assumes "length (display_number st) = 4"
  shows "adc_handler fp True s st =
    Some ([WriteToDac (mapf ((int_to_float fp 1 - omega fp) * y_prev st + omega fp * x_prev st)
                         (int_to_float fp 0) (int_to_float fp mapf_in_max)
                         (int_to_float fp 0) (int_to_float fp 1023))],
          st\<lparr> display_number :=
                 [ucast (map32 s 0 0xFFFF 0 3300 mod 10),
                  ucast ((map32 s 0 0xFFFF 0 3300 mod 100) div 10),
                  ucast ((map32 s 0 0xFFFF 0 3300 mod 1000) div 100),
                  ucast ((map32 s 0 0xFFFF 0 3300 mod 10000) div 1000)],
               adc_raw := s,
               adc_volt := map32 s 0 0xFFFF 0 3300,
               x_cur := uint32_to_float fp s,
               y_cur := (int_to_float fp 1 - omega fp) * y_prev st + omega fp * x_prev st,
               y_prev := (int_to_float fp 1 - omega fp) * y_prev st + omega fp * x_prev st,
               x_prev := uint32_to_float fp s \<rparr>)"
  using assms by (simp add: adc_handler_def Let_def write_digits_len)

lemma next_dig_simps:
  "next_dig 0 = 1" "next_dig 1 = 2" "next_dig 2 = 3" "next_dig 3 = 0"
  by (simp_all add: next_dig_def DISPLAY_DIGIT_SIZE_MAX_def)

lemma next_dig_le: "d \<le> 3 \<Longrightarrow> next_dig d \<le> 3"
  using dig_cases[of d] by (auto simp: next_dig_simps)

lemma next_dig_eq: "next_dig d = (if d = 3 then 0 else d + 1)"
  by (simp add: next_dig_def DISPLAY_DIGIT_SIZE_MAX_def word_uint_eq_iff)

lemma display_handler_True:
  assumes "length (display_number st) = 4" and "dig st \<le> 3"
  shows "display_handler True st =
    Some ([DisplayDig 0 (display_number st ! (3 - unat (dig st))) (dig st) False False],
          st\<lparr>dig := next_dig (dig st)\<rparr>)"
  using assms dig_cases[of "dig st"]
  by (auto simp: display_handler_def load_def DISPLAY_DIGIT_SIZE_MAX_def)

lemma adc_handler_False: "adc_handler fp False s st = Some ([], st)"
  by (simp add: adc_handler_def)

lemma display_handler_False: "display_handler False st = Some ([], st)"
  by (simp add: display_handler_def)

subsection \<open>Sequences of activations\<close>

text \<open>
  The four cells and a cursor in \<open>0..3\<close> are kept by every activation, no activation
  fails, and cells that hold digits keep holding digits.
\<close>

lemma adc_handler_total:
  assumes "length (display_number st) = 4"
  shows "\<exists>outs st'. adc_handler fp flag s st = Some (outs, st')
           \<and> length (display_number st') = 4 \<and> dig st' = dig st
           \<and> (list_all is_digit (display_number st) \<longrightarrow> list_all is_digit (display_number st'))"
proof (cases flag)
  case True
  with assms show ?thesis
    by (simp add: adc_handler_True written_cells_are_digits)
next
  case False
  with assms show ?thesis by (simp add: adc_handler_False)
qed

lemma display_handler_total:
  assumes "length (display_number st) = 4" and "dig st \<le> 3"
  shows "\<exists>outs st'. display_handler flag st = Some (outs, st')
           \<and> display_number st' = display_number st \<and> dig st' \<le> 3"
proof (cases flag)
  case True
  with assms show ?thesis by (simp add: display_handler_True next_dig_le)
next
  case False
  with assms show ?thesis by (simp add: display_handler_False)
qed

lemma handle_total:
  assumes "length (display_number st) = 4" and "dig st \<le> 3"
  shows "\<exists>outs st'. handle fp e st = Some (outs, st')
           \<and> length (display_number st') = 4 \<and> dig st' \<le> 3
           \<and> (list_all is_digit (display_number st) \<longrightarrow> list_all is_digit (display_number st'))"
proof (cases e)
  case (TC6 flag s)
  with adc_handler_total[OF assms(1), of fp flag s] assms(2) show ?thesis by auto
next
  case (TC7 flag)
  with display_handler_total[OF assms, of flag] assms(1) show ?thesis by auto
qed

lemma run_total:
  assumes "length (display_number st) = 4" and "dig st \<le> 3"
  shows "\<exists>outs st'. run fp es st = Some (outs, st')
           \<and> length (display_number st') = 4 \<and> dig st' \<le> 3
           \<and> (list_all is_digit (display_number st) \<longrightarrow> list_all is_digit (display_number st'))"
  using assms
proof (induction es arbitrary: st)
  case Nil
  then show ?case by simp
next
  case (Cons e es)
  from handle_total[OF Cons.prems, of fp e] obtain o1 s1 where
    h: "handle fp e st = Some (o1, s1)" and
    w: "length (display_number s1) = 4" "dig s1 \<le> 3" and
    d: "list_all is_digit (display_number st) \<longrightarrow> list_all is_digit (display_number s1)"
    by blast
  from Cons.IH[OF w] obtain o2 s2 where
    r: "run fp es s1 = Some (o2, s2)" and
    w2: "length (display_number s2) = 4" "dig s2 \<le> 3" and
    d2: "list_all is_digit (display_number s1) \<longrightarrow> list_all is_digit (display_number s2)"
    by blast
  from h r have "run fp (e # es) st = Some (o1 @ o2, s2)" by simp
  with w2 d d2 show ?case by blast
qed

lemma init_wf: "length (display_number (init fp)) = 4" "dig (init fp) \<le> 3"
  by (simp_all add: init_def)

section \<open>The low-pass filter step\<close>

text \<open>
  Claim C1. For every state (with the four-cell buffer), every sample \<open>s\<close> and every float
  arithmetic, one activation of \<open>adc_handler\<close> with its flag set hands to the DAC the rescaled
  value of \<open>y = (1 - omega) * y_prev + omega * x_prev\<close>, computed from the previous input
  \<open>x_prev\<close> and not from \<open>s\<close>; afterwards \<open>y_prev\<close> is \<open>y\<close> and \<open>x_prev\<close> is the
  converted sample. The sample reaches the output of the next activation, whatever that
  activation reads (\<open>s2\<close>); and replacing \<open>s\<close> by any other sample \<open>t\<close> leaves the
  output of the current activation unchanged.
\<close>

theorem adc_handler_filter_step:
  assumes "length (display_number st) = DISPLAY_DIGIT_SIZE_MAX"
  shows "let y = (int_to_float fp 1 - omega fp) * y_prev st + omega fp * x_prev st;
             dac = (\<lambda>v. WriteToDac (mapf v (int_to_float fp 0) (int_to_float fp mapf_in_max)
                                       (int_to_float fp 0) (int_to_float fp 1023)))
         in (\<exists>st1 st2.
               adc_handler fp True s st = Some ([dac y], st1)
             \<and> y_prev st1 = y \<and> x_prev st1 = uint32_to_float fp s
             \<and> adc_handler fp True s2 st1 =
                 Some ([dac ((int_to_float fp 1 - omega fp) * y
                              + omega fp * uint32_to_float fp s)], st2))
          \<and> map_option fst (adc_handler fp True t st) = map_option fst (adc_handler fp True s st)"
proof -
  from assms have len: "length (display_number st) = 4"
    by (simp add: DISPLAY_DIGIT_SIZE_MAX_def)
  have step: "\<exists>st1. adc_handler fp True u st = Some (
      [WriteToDac (mapf ((int_to_float fp 1 - omega fp) * y_prev st + omega fp * x_prev st)
         (int_to_float fp 0) (int_to_float fp mapf_in_max)
         (int_to_float fp 0) (int_to_float fp 1023))], st1)
      \<and> y_prev st1 = (int_to_float fp 1 - omega fp) * y_prev st + omega fp * x_prev st
      \<and> x_prev st1 = uint32_to_float fp u
      \<and> length (display_number st1) = 4" for u
    by (simp add: adc_handler_True[OF len])
  from step[of s] obtain st1 where
    a: "adc_handler fp True s st = Some (
      [WriteToDac (mapf ((int_to_float fp 1 - omega fp) * y_prev st + omega fp * x_prev st)
         (int_to_float fp 0) (int_to_float fp mapf_in_max)
         (int_to_float fp 0) (int_to_float fp 1023))], st1)"
    and b: "y_prev st1 = (int_to_float fp 1 - omega fp) * y_prev st + omega fp * x_prev st"
           "x_prev st1 = uint32_to_float fp s"
    and l1: "length (display_number st1) = 4"
    by blast
  from step[of t] a have ind:
    "map_option fst (adc_handler fp True t st) = map_option fst (adc_handler fp True s st)"
    by auto
  have c: "\<exists>st2. adc_handler fp True s2 st1 = Some (
      [WriteToDac (mapf ((int_to_float fp 1 - omega fp) * y_prev st1 + omega fp * x_prev st1)
         (int_to_float fp 0) (int_to_float fp mapf_in_max)
         (int_to_float fp 0) (int_to_float fp 1023))], st2)"
    by (simp add: adc_handler_True[OF l1])
  from a b c ind show ?thesis
    unfolding Let_def by auto
qed

text \<open>
  The theorem at the start state, in the arithmetic without rounding, for the samples
  \<open>2048\<close>, then \<open>7\<close>, against \<open>9\<close>.
\<close>

theorem adc_handler_filter_step_witness:
  "length (display_number (init exact_fpu)) = DISPLAY_DIGIT_SIZE_MAX
   \<and> (\<exists>st1 st2.
         adc_handler exact_fpu True 2048 (init exact_fpu) = Some ([WriteToDac 0], st1)
       \<and> y_prev st1 = 0 \<and> x_prev st1 = 2048
       \<and> adc_handler exact_fpu True 7 st1 = Some ([WriteToDac (0.628 * 2048 * 1023 / 4095)], st2))
   \<and> map_option fst (adc_handler exact_fpu True 9 (init exact_fpu))
       = map_option fst (adc_handler exact_fpu True 2048 (init exact_fpu))"
  using adc_handler_filter_step[of "init exact_fpu" exact_fpu 2048 7 9]
  by (simp add: init_def exact_fpu_def DISPLAY_DIGIT_SIZE_MAX_def mapf_def mapf_in_max_def
        RESOLUTION_def BW_def PI_def SAMP_FREQ_def Let_def)

section \<open>The millivolt value\<close>

text \<open>
  Claim C2. With \<open>RESOLUTION = 12\<close> the largest native sample is \<open>4095\<close>. The claim
  expects the millivolt value of this sample to be \<open>3300\<close>, the interpolation from
  \<open>[0, 4095]\<close> to \<open>[0, 3300]\<close>. The handler interpolates from \<open>[0, 0xFFFF]\<close>
  whatever the resolution, so it stores \<open>206\<close> in \<open>adc_volt\<close> and the digits
  \<open>6, 0, 2, 0\<close> (least significant first) in \<open>display_number\<close>.
\<close>

theorem millivolt_rescale_at_full_scale:
  "(4095 :: UINT32) = 2 ^ RESOLUTION - 1
   \<and> (\<exists>outs st'. adc_handler fp True 4095 (init fp) = Some (outs, st')
         \<and> adc_volt st' = 206 \<and> display_number st' = [6, 0, 2, 0])
   \<and> map32 4095 0 (2 ^ RESOLUTION - 1) 0 3300 = 3300"
  by (simp add: adc_handler_True init_def RESOLUTION_def map32_def)

section \<open>The display task\<close>

text \<open>
  Claim C4. An activation of \<open>display_handler\<close> with its flag set, in a state with the
  four-cell buffer and a cursor \<open>dig\<close> in \<open>0..3\<close>, makes exactly one call of
  \<open>display_dig\<close>: the value is the cell \<open>3 - dig\<close> of \<open>display_number\<close> (a read
  inside the array), the position is \<open>dig\<close>, and the two flags are off. Afterwards
  \<open>dig\<close> is \<open>dig + 1\<close>, or \<open>0\<close> when it was \<open>3\<close>; nothing else changes.
\<close>

theorem display_handler_drives_one_digit:
  assumes "length (display_number st) = DISPLAY_DIGIT_SIZE_MAX" and "dig st \<le> 3"
  shows "display_handler True st =
           Some ([DisplayDig 0 (display_number st ! (3 - unat (dig st))) (dig st) False False],
                 st\<lparr>dig := (if dig st = 3 then 0 else dig st + 1)\<rparr>)
         \<and> load (display_number st) (3 - uint (dig st))
             = Some (display_number st ! (3 - unat (dig st)))"
proof -
  from assms have len: "length (display_number st) = 4"
    by (simp add: DISPLAY_DIGIT_SIZE_MAX_def)
  have "load (display_number st) (3 - uint (dig st))
             = Some (display_number st ! (3 - unat (dig st)))"
    using len dig_cases[OF assms(2)] by (auto simp: load_def)
  then show ?thesis
    by (simp add: display_handler_True[OF len assms(2)] next_dig_eq)
qed

text \<open>The theorem for the buffer \<open>6, 0, 2, 0\<close> and the cursor at \<open>3\<close>.\<close>

theorem display_handler_drives_one_digit_witness:
  "length (display_number ((init exact_fpu)\<lparr>display_number := [6, 0, 2, 0], dig := 3\<rparr>))
      = DISPLAY_DIGIT_SIZE_MAX
   \<and> dig ((init exact_fpu)\<lparr>display_number := [6, 0, 2, 0], dig := 3\<rparr>) \<le> 3
   \<and> display_handler True ((init exact_fpu)\<lparr>display_number := [6, 0, 2, 0], dig := 3\<rparr>)
       = Some ([DisplayDig 0 6 3 False False],
               (init exact_fpu)\<lparr>display_number := [6, 0, 2, 0], dig := 0\<rparr>)"
  using display_handler_drives_one_digit
          [of "(init exact_fpu)\<lparr>display_number := [6, 0, 2, 0], dig := 3\<rparr>"]
  by (simp add: init_def DISPLAY_DIGIT_SIZE_MAX_def)

text \<open>Four activations in a row, written out.\<close>

lemma run4:
  assumes "length (display_number st) = 4" and "dig st \<le> 3"
  shows "run fp [TC7 True, TC7 True, TC7 True, TC7 True] st =
    Some ([DisplayDig 0 (display_number st ! (3 - unat (dig st))) (dig st) False False,
           DisplayDig 0 (display_number st ! (3 - unat (next_dig (dig st)))) (next_dig (dig st)) False False,
           DisplayDig 0 (display_number st ! (3 - unat (next_dig (next_dig (dig st)))))
              (next_dig (next_dig (dig st))) False False,
           DisplayDig 0 (display_number st ! (3 - unat (next_dig (next_dig (next_dig (dig st))))))
              (next_dig (next_dig (next_dig (dig st)))) False False],
          st\<lparr>dig := next_dig (next_dig (next_dig (next_dig (dig st))))\<rparr>)"
  using assms by (simp add: display_handler_True next_dig_le)

lemma next_dig4: "d \<le> 3 \<Longrightarrow> next_dig (next_dig (next_dig (next_dig d))) = d"
  using dig_cases[of d] by (auto simp: next_dig_simps)

text \<open>
  Claim C5. From any cursor in \<open>0..3\<close>, four consecutive activations of
  \<open>display_handler\<close> with the flag set make four calls, each of the positions
  \<open>0\<close>, \<open>1\<close>, \<open>2\<close>, \<open>3\<close> is driven by exactly one of them, and the cursor is
  back at its starting value: \<open>next_dig\<close> iterated four times is the identity on
  \<open>0..3\<close>.
\<close>

theorem display_multiplex_coverage:
  assumes "length (display_number st) = DISPLAY_DIGIT_SIZE_MAX" and "dig st \<le> 3"
  shows "\<exists>outs st'.
           run fp [TC7 True, TC7 True, TC7 True, TC7 True] st = Some (outs, st')
         \<and> length outs = 4
         \<and> count_list (map position outs) (Some 0) = 1
         \<and> count_list (map position outs) (Some 1) = 1
         \<and> count_list (map position outs) (Some 2) = 1
         \<and> count_list (map position outs) (Some 3) = 1
         \<and> dig st' = dig st
         \<and> (next_dig ^^ 4) (dig st) = dig st"
proof -
  from assms have len: "length (display_number st) = 4"
    by (simp add: DISPLAY_DIGIT_SIZE_MAX_def)
  have four: "(next_dig ^^ 4) (dig st) = dig st"
    by (simp add: numeral_eq_Suc next_dig4[OF assms(2)])
  from dig_cases[OF assms(2)] show ?thesis
    unfolding run4[OF len assms(2)] four
    by (elim disjE) (simp_all add: next_dig_simps)
qed

text \<open>The theorem for the start buffer and the cursor at \<open>2\<close>.\<close>

theorem display_multiplex_coverage_witness:
  "length (display_number ((init exact_fpu)\<lparr>dig := 2\<rparr>)) = DISPLAY_DIGIT_SIZE_MAX
   \<and> dig ((init exact_fpu)\<lparr>dig := 2\<rparr>) \<le> 3
   \<and> run exact_fpu [TC7 True, TC7 True, TC7 True, TC7 True] ((init exact_fpu)\<lparr>dig := 2\<rparr>)
       = Some ([DisplayDig 0 1 2 False False, DisplayDig 0 1 3 False False,
                DisplayDig 0 1 0 False False, DisplayDig 0 1 1 False False],
               (init exact_fpu)\<lparr>dig := 2\<rparr>)
   \<and> (next_dig ^^ 4) 2 = 2"
  using display_multiplex_coverage[of "(init exact_fpu)\<lparr>dig := 2\<rparr>" exact_fpu]
  by (auto simp: init_def DISPLAY_DIGIT_SIZE_MAX_def display_handler_def load_def next_dig_def)

section \<open>The digit decomposition\<close>

lemma recombine_digits:
  assumes "n < 10000"
  shows "n mod 10 + 10 * (n div 10 mod 10) + 100 * (n div 100 mod 10)
           + 1000 * (n div 1000 mod 10) = (n :: nat)"
proof -
  have "n mod 10 + 10 * (n div 10 mod 10) = n mod 100"
    using mod_mult2_eq[of n 10 10] by simp
  moreover have "n mod 100 + 100 * (n div 100 mod 10) = n mod 1000"
    using mod_mult2_eq[of n 100 10] by simp
  moreover have "n mod 1000 + 1000 * (n div 1000 mod 10) = n mod 10000"
    using mod_mult2_eq[of n 1000 10] by simp
  moreover from assms have "n mod 10000 = n" by simp
  ultimately show ?thesis by linarith
qed

lemma recombine_digits_spec:
  assumes "n < 10000"
  shows "recombine (digits_spec n) = n"
proof -
  have "recombine (digits_spec n) = n mod 10 + 10 * (n div 10 mod 10)
          + 100 * (n div 100 mod 10) + 1000 * (n div 1000 mod 10)"
    by (simp add: recombine_def digits_spec_def)
  also have "\<dots> = n"
    using assms by (rule recombine_digits)
  finally show ?thesis .
qed

text \<open>
  Claim C6. For every \<open>adc_volt\<close> value \<open>v\<close> in \<open>[0, 9999]\<close>, the four cells that
  lines 183 to 186 write (\<open>v%10\<close>, \<open>(v%100)/10\<close>, \<open>(v%1000)/100\<close>,
  \<open>(v%10000)/1000\<close>, each narrowed to \<open>UINT8\<close>) are the digits
  \<open>(v / 10\<^sup>i) % 10\<close> of the specification, and
  \<open>d0 + 10 * d1 + 100 * d2 + 1000 * d3\<close> is \<open>v\<close> again.
\<close>

theorem write_digits_roundtrip:
  assumes "v \<le> 9999" and "length buf = DISPLAY_DIGIT_SIZE_MAX"
  shows "\<exists>ds. write_digits v buf = Some ds
              \<and> map unat ds = digits_spec (unat v)
              \<and> recombine (map unat ds) = unat v"
proof -
  from assms(2) have len: "length buf = 4"
    by (simp add: DISPLAY_DIGIT_SIZE_MAX_def)
  from assms(1) have "unat v < 10000"
    by (simp add: word_le_nat_alt)
  then have "recombine (digits_spec (unat v)) = unat v"
    by (rule recombine_digits_spec)
  moreover have "map unat [ucast (v mod 10), ucast ((v mod 100) div 10),
        ucast ((v mod 1000) div 100), ucast ((v mod 10000) div 1000) :: UINT8]
      = digits_spec (unat v)"
    by (simp add: digits_spec_def unat_digit0 unat_digit1 unat_digit2 unat_digit3)
  ultimately show ?thesis
    by (simp add: write_digits_len[OF len])
qed

text \<open>The theorem for \<open>v = 3300\<close>, written over the start buffer.\<close>

theorem write_digits_roundtrip_witness:
  "(3300 :: UINT32) \<le> 9999 \<and> length [1, 1, 1, 1 :: UINT8] = DISPLAY_DIGIT_SIZE_MAX
   \<and> write_digits 3300 [1, 1, 1, 1] = Some [0, 0, 3, 3]
   \<and> digits_spec (unat (3300 :: UINT32)) = [0, 0, 3, 3]
   \<and> recombine (map unat [0, 0, 3, 3 :: UINT8]) = unat (3300 :: UINT32)"
  using write_digits_roundtrip[of 3300 "[1, 1, 1, 1]"]
  by (simp add: DISPLAY_DIGIT_SIZE_MAX_def write_digits_def store_def digits_spec_def
        recombine_def)

section \<open>The display buffer\<close>

text \<open>
  Claim C7. Every cell of \<open>display_number\<close> holds a decimal digit: the initial cells do;
  an activation of \<open>adc_handler\<close> with its flag set writes four digits, for every sample
  (inside the native range or not) and whatever the cells held before; and after any
  sequence of activations of the two handlers from the start state, every cell is a digit.
\<close>

theorem display_number_holds_digits:
  "list_all is_digit (display_number (init fp))
   \<and> (length (display_number st) = DISPLAY_DIGIT_SIZE_MAX \<longrightarrow>
        (\<exists>outs st'. adc_handler fp True s st = Some (outs, st')
                   \<and> list_all is_digit (display_number st')))
   \<and> (\<exists>outs st'. run fp es (init fp) = Some (outs, st')
                  \<and> list_all is_digit (display_number st'))"
proof (intro conjI impI)
  show i: "list_all is_digit (display_number (init fp))"
    by (simp add: init_def is_digit_def)
  from run_total[OF init_wf, of fp es] i
  show "\<exists>outs st'. run fp es (init fp) = Some (outs, st')
                  \<and> list_all is_digit (display_number st')"
    by blast
next
  assume "length (display_number st) = DISPLAY_DIGIT_SIZE_MAX"
  then have len: "length (display_number st) = 4"
    by (simp add: DISPLAY_DIGIT_SIZE_MAX_def)
  show "\<exists>outs st'. adc_handler fp True s st = Some (outs, st')
                   \<and> list_all is_digit (display_number st')"
    by (simp add: adc_handler_True[OF len] written_cells_are_digits)
qed

text \<open>
  The theorem for a buffer of four cells that are not digits and the sample \<open>4095\<close>, and
  for a sampling activation followed by a display activation.
\<close>

theorem display_number_holds_digits_witness:
  "list_all is_digit (display_number (init exact_fpu))
   \<and> length (display_number ((init exact_fpu)\<lparr>display_number := [255, 10, 77, 200]\<rparr>))
       = DISPLAY_DIGIT_SIZE_MAX
   \<and> \<not> list_all is_digit [255, 10, 77, 200]
   \<and> map_option (display_number \<circ> snd)
        (adc_handler exact_fpu True 4095
           ((init exact_fpu)\<lparr>display_number := [255, 10, 77, 200]\<rparr>)) = Some [6, 0, 2, 0]
   \<and> list_all is_digit [6, 0, 2, 0]
   \<and> map_option (display_number \<circ> snd)
        (run exact_fpu [TC6 True 65535, TC7 True] (init exact_fpu)) = Some [0, 0, 3, 3]
   \<and> list_all is_digit [0, 0, 3, 3]"
  using display_number_holds_digits
          [of exact_fpu "(init exact_fpu)\<lparr>display_number := [255, 10, 77, 200]\<rparr>" 4095
              "[TC6 True 65535, TC7 True]"]
  by (simp add: init_def DISPLAY_DIGIT_SIZE_MAX_def is_digit_def adc_handler_True
        display_handler_True map32_def)

lemma run_display_keeps_buffer:
  assumes "length (display_number st) = 4" and "dig st \<le> 3"
  shows "\<exists>outs st'. run fp (map TC7 flags) st = Some (outs, st')
           \<and> display_number st' = display_number st"
  using assms
proof (induction flags arbitrary: st)
  case Nil
  then show ?case by simp
next
  case (Cons f fs)
  from display_handler_total[OF Cons.prems, of f] obtain o1 s1 where
    h: "display_handler f st = Some (o1, s1)" and
    b: "display_number s1 = display_number st" and d: "dig s1 \<le> 3"
    by blast
  from b Cons.prems(1) have "length (display_number s1) = 4" by simp
  from Cons.IH[OF this d] obtain o2 s2 where
    r: "run fp (map TC7 fs) s1 = Some (o2, s2)" and
    b2: "display_number s2 = display_number s1"
    by blast
  from h r have "run fp (map TC7 (f # fs)) st = Some (o1 @ o2, s2)" by simp
  with b b2 show ?case by simp
qed

text \<open>
  Claim C9. At start, before any sampling activation, \<open>display_number\<close> is
  \<open>{1, 1, 1, 1}\<close>. Activations of \<open>display_handler\<close> do not write it: for every content
  of the four cells, every cursor in \<open>0..3\<close> and every sequence of display activations
  (each with its flag set or not), the buffer afterwards is the buffer before. So, as long
  as only the display task runs, the buffer stays \<open>{1, 1, 1, 1}\<close>.
\<close>

theorem display_handler_keeps_buffer:
  "display_number (init fp) = [1, 1, 1, 1]
   \<and> (length (display_number st) = DISPLAY_DIGIT_SIZE_MAX \<and> dig st \<le> 3 \<longrightarrow>
        (\<exists>outs st'. run fp (map TC7 flags) st = Some (outs, st')
                   \<and> display_number st' = display_number st))
   \<and> (\<exists>outs st'. run fp (map TC7 flags) (init fp) = Some (outs, st')
                  \<and> display_number st' = [1, 1, 1, 1])"
proof (intro conjI impI)
  show i: "display_number (init fp) = [1, 1, 1, 1]"
    by (simp add: init_def)
  from run_display_keeps_buffer[OF init_wf[of fp], of fp flags] i
  show "\<exists>outs st'. run fp (map TC7 flags) (init fp) = Some (outs, st')
                  \<and> display_number st' = [1, 1, 1, 1]"
    by simp
next
  assume "length (display_number st) = DISPLAY_DIGIT_SIZE_MAX \<and> dig st \<le> 3"
  then have "length (display_number st) = 4" "dig st \<le> 3"
    by (simp_all add: DISPLAY_DIGIT_SIZE_MAX_def)
  then show "\<exists>outs st'. run fp (map TC7 flags) st = Some (outs, st')
                   \<and> display_number st' = display_number st"
    by (rule run_display_keeps_buffer)
qed

text \<open>
  The theorem for the buffer \<open>6, 0, 2, 0\<close>, the cursor at \<open>3\<close> and three display
  activations, the second with its flag not set.
\<close>

theorem display_handler_keeps_buffer_witness:
  "length (display_number ((init exact_fpu)\<lparr>display_number := [6, 0, 2, 0], dig := 3\<rparr>))
      = DISPLAY_DIGIT_SIZE_MAX
   \<and> dig ((init exact_fpu)\<lparr>display_number := [6, 0, 2, 0], dig := 3\<rparr>) \<le> 3
   \<and> run exact_fpu (map TC7 [True, False, True])
        ((init exact_fpu)\<lparr>display_number := [6, 0, 2, 0], dig := 3\<rparr>)
       = Some ([DisplayDig 0 6 3 False False, DisplayDig 0 0 0 False False],
               (init exact_fpu)\<lparr>display_number := [6, 0, 2, 0], dig := 1\<rparr>)
   \<and> map_option (display_number \<circ> snd)
        (run exact_fpu (map TC7 [True, False, True]) (init exact_fpu)) = Some [1, 1, 1, 1]"
  using display_handler_keeps_buffer
          [of exact_fpu "(init exact_fpu)\<lparr>display_number := [6, 0, 2, 0], dig := 3\<rparr>"
              "[True, False, True]"]
  by (simp add: init_def DISPLAY_DIGIT_SIZE_MAX_def display_handler_True
        display_handler_False next_dig_simps)

section \<open>Array bounds\<close>

text \<open>
  The failure value is not idle: a cursor outside \<open>0..3\<close> makes the read of
  \<open>display_handler\<close> leave the array, and a buffer shorter than four cells makes the
  writes of \<open>adc_handler\<close> leave it.
\<close>

lemma display_handler_out_of_bounds:
  "display_handler True ((init fp)\<lparr>dig := 4\<rparr>) = None"
  by (simp add: display_handler_def load_def init_def DISPLAY_DIGIT_SIZE_MAX_def)

lemma write_digits_out_of_bounds:
  "write_digits v [1, 1, 1] = None"
  by (simp add: write_digits_def store_def)

text \<open>
  Claim C10. Every access to \<open>display_number\<close> is inside the array. After any sequence
  of activations of the two handlers from the start state (cursor \<open>0\<close>), whatever the
  flags and the samples, no access has failed, the cursor is in \<open>0..3\<close>, the array has
  its four cells, and the index \<open>DISPLAY_DIGIT_SIZE_MAX-1-dig\<close> of the next read is in
  \<open>0..3\<close>. The writes of the sampling task go to the indices \<open>0\<close>, \<open>1\<close>, \<open>2\<close>,
  \<open>3\<close> and succeed on a four-cell array.
\<close>

theorem array_accesses_in_bounds:
  "(\<exists>outs st. run fp es (init fp) = Some (outs, st)
       \<and> dig st \<le> 3
       \<and> length (display_number st) = DISPLAY_DIGIT_SIZE_MAX
       \<and> 0 \<le> int DISPLAY_DIGIT_SIZE_MAX - 1 - uint (dig st)
       \<and> int DISPLAY_DIGIT_SIZE_MAX - 1 - uint (dig st) < int DISPLAY_DIGIT_SIZE_MAX
       \<and> load (display_number st) (int DISPLAY_DIGIT_SIZE_MAX - 1 - uint (dig st)) \<noteq> None
       \<and> write_digits v (display_number st) \<noteq> None)"
proof -
  from run_total[OF init_wf, of fp es] obtain outs st where
    r: "run fp es (init fp) = Some (outs, st)" and
    len: "length (display_number st) = 4" and d: "dig st \<le> 3"
    by blast
  from d have u: "uint (dig st) \<le> 3"
    by (simp add: word_le_def)
  have "0 \<le> uint (dig st)" by simp
  then have nn: "- 1 < uint (dig st)" by linarith
  with u len have "load (display_number st) (int DISPLAY_DIGIT_SIZE_MAX - 1 - uint (dig st)) \<noteq> None"
    by (simp add: load_def DISPLAY_DIGIT_SIZE_MAX_def)
  with r len d u nn show ?thesis
    by (simp add: DISPLAY_DIGIT_SIZE_MAX_def write_digits_len)
qed

section \<open>The two rescalings, step by step\<close>

lemma unat_map32_millivolts:
  assumes "v \<le> 0xFFFF"
  shows "unat (map32 v 0 0xFFFF 0 3300) = unat v * 3300 div 65535"
proof -
  from assms have "unat v \<le> 65535"
    by (simp add: word_le_nat_alt)
  then have "unat v * unat (3300 :: UINT32) < 2 ^ LENGTH(32)"
    by simp
  then have "unat (v * 3300) = unat v * 3300"
    by (simp add: unat_mult_lem[THEN iffD1])
  then show ?thesis
    by (simp add: map32_def unat_div)
qed

lemma map32_millivolts_mono:
  assumes "a \<le> b" and "b \<le> 0xFFFF"
  shows "map32 a 0 0xFFFF 0 3300 \<le> map32 b 0 0xFFFF 0 3300"
proof -
  from assms have a: "a \<le> 0xFFFF" by simp
  from assms(1) have "unat a * 3300 div 65535 \<le> unat b * 3300 div 65535"
    by (intro div_le_mono mult_le_mono1) (simp add: word_le_nat_alt)
  then show ?thesis
    by (simp add: word_le_nat_alt unat_map32_millivolts[OF a] unat_map32_millivolts[OF assms(2)])
qed

lemma mapf_mono_steps:
  fixes in_lo :: "'f :: {plus, minus, times, inverse, ord}"
  assumes "\<And>u w. u \<le> w \<Longrightarrow> u - in_lo \<le> w - in_lo"
      and "\<And>u w. u \<le> w \<Longrightarrow> u * (out_hi - out_lo) \<le> w * (out_hi - out_lo)"
      and "\<And>u w. u \<le> w \<Longrightarrow> u / (in_hi - in_lo) \<le> w / (in_hi - in_lo)"
      and "\<And>u w. u \<le> w \<Longrightarrow> out_lo + u \<le> out_lo + w"
      and "a \<le> b"
  shows "mapf a in_lo in_hi out_lo out_hi \<le> mapf b in_lo in_hi out_lo out_hi"
  unfolding mapf_def
  by (intro assms(4) assms(3) assms(2) assms(1) assms(5))

lemma mapf_mono_exact:
  fixes a :: "'f :: linordered_field"
  assumes "a \<le> b" and "in_lo \<le> in_hi" and "out_lo \<le> out_hi"
  shows "mapf a in_lo in_hi out_lo out_hi \<le> mapf b in_lo in_hi out_lo out_hi"
  using assms
  by (intro mapf_mono_steps) (simp_all add: mult_right_mono divide_right_mono)

section \<open>The filter recurrence without rounding\<close>

text \<open>
  The firmware computes the recurrence in single precision, where every operation rounds;
  the facts of this section hold in the arithmetic without rounding (\<open>exact_fpu\<close>) and
  say nothing about the rounded values. There \<open>omega\<close> is \<open>0.628\<close> and the distance
  of the output to a constant input shrinks by the factor \<open>1 - omega = 0.372\<close> at every
  activation after the first.
\<close>

lemma exact_omega: "omega exact_fpu = 0.628"
  by (simp add: exact_fpu_def BW_def PI_def SAMP_FREQ_def)

lemma exact_step:
  assumes "length (display_number st) = 4"
  shows "\<exists>outs st'. adc_handler exact_fpu True s st = Some (outs, st')
           \<and> length (display_number st') = 4
           \<and> x_prev st' = real (unat s)
           \<and> y_prev st' = 0.372 * y_prev st + 0.628 * x_prev st"
  by (simp add: adc_handler_True[OF assms] exact_omega) (simp add: exact_fpu_def)

lemma exact_constant_input:
  assumes "length (display_number st) = 4" and "x_prev st = real (unat s)"
  shows "\<exists>outs st'. run exact_fpu (replicate n (TC6 True s)) st = Some (outs, st')
           \<and> length (display_number st') = 4
           \<and> x_prev st' = real (unat s)
           \<and> y_prev st' - real (unat s) = 0.372 ^ n * (y_prev st - real (unat s))"
  using assms
proof (induction n arbitrary: st)
  case 0
  then show ?case by simp
next
  case (Suc n)
  from exact_step[OF Suc.prems(1), of s] obtain o1 s1 where
    h: "adc_handler exact_fpu True s st = Some (o1, s1)" and
    l: "length (display_number s1) = 4" and x: "x_prev s1 = real (unat s)" and
    y: "y_prev s1 = 0.372 * y_prev st + 0.628 * x_prev st"
    by blast
  from Suc.IH[OF l x] obtain o2 s2 where
    r: "run exact_fpu (replicate n (TC6 True s)) s1 = Some (o2, s2)" and
    l2: "length (display_number s2) = 4" and x2: "x_prev s2 = real (unat s)" and
    y2: "y_prev s2 - real (unat s) = 0.372 ^ n * (y_prev s1 - real (unat s))"
    by blast
  from h r have "run exact_fpu (replicate (Suc n) (TC6 True s)) st = Some (o1 @ o2, s2)"
    by simp
  moreover from y Suc.prems(2)
  have e: "y_prev s1 - real (unat s) = 0.372 * (y_prev st - real (unat s))"
    by (simp add: algebra_simps)
  have "y_prev s2 - real (unat s) = 0.372 ^ Suc n * (y_prev st - real (unat s))"
    unfolding y2 e by (simp only: power_Suc ac_simps)
  ultimately show ?case using l2 x2 by blast
qed

lemma exact_geometric_error:
  assumes "length (display_number st) = 4"
  shows "\<exists>outs st'. run exact_fpu (replicate (Suc n) (TC6 True s)) st = Some (outs, st')
           \<and> y_prev st' - real (unat s)
               = 0.372 ^ n * (0.372 * y_prev st + 0.628 * x_prev st - real (unat s))"
proof -
  from exact_step[OF assms, of s] obtain o1 s1 where
    h: "adc_handler exact_fpu True s st = Some (o1, s1)" and
    l: "length (display_number s1) = 4" and x: "x_prev s1 = real (unat s)" and
    y: "y_prev s1 = 0.372 * y_prev st + 0.628 * x_prev st"
    by blast
  from exact_constant_input[OF l x, of n] obtain o2 s2 where
    r: "run exact_fpu (replicate n (TC6 True s)) s1 = Some (o2, s2)" and
    y2: "y_prev s2 - real (unat s) = 0.372 ^ n * (y_prev s1 - real (unat s))"
    by blast
  from h r have "run exact_fpu (replicate (Suc n) (TC6 True s)) st = Some (o1 @ o2, s2)"
    by simp
  with y y2 show ?thesis by simp
qed

lemma exact_converges:
  assumes "length (display_number st) = 4" and "0 < e"
  shows "\<exists>N. \<forall>n\<ge>N. \<exists>outs st'.
           run exact_fpu (replicate (Suc n) (TC6 True s)) st = Some (outs, st')
           \<and> \<bar>y_prev st' - real (unat s)\<bar> < e"
proof -
  define c where "c = 0.372 * y_prev st + 0.628 * x_prev st - real (unat s)"
  have "(\<lambda>n. (0.372 :: real) ^ n) \<longlonglongrightarrow> 0"
    by (rule LIMSEQ_realpow_zero) simp_all
  then have "(\<lambda>n. (0.372 :: real) ^ n * c) \<longlonglongrightarrow> 0"
    by (rule tendsto_mult_left_zero)
  from LIMSEQ_D[OF this assms(2)] obtain N where
    N: "\<forall>n\<ge>N. norm ((0.372 :: real) ^ n * c - 0) < e"
    by blast
  show ?thesis
  proof (rule exI[of _ N], intro allI impI)
    fix n assume "N \<le> n"
    with N have small: "\<bar>(0.372 :: real) ^ n * c\<bar> < e" by simp
    from exact_geometric_error[OF assms(1), of n s] obtain outs st' where
      "run exact_fpu (replicate (Suc n) (TC6 True s)) st = Some (outs, st')"
      "y_prev st' - real (unat s) = 0.372 ^ n * c"
      unfolding c_def by blast
    with small show "\<exists>outs st'.
           run exact_fpu (replicate (Suc n) (TC6 True s)) st = Some (outs, st')
           \<and> \<bar>y_prev st' - real (unat s)\<bar> < e"
      by simp
  qed
qed

lemma exact_scenario:
  "map_option (y_prev \<circ> snd) (run exact_fpu [TC6 True 2048] (init exact_fpu)) = Some 0"
  "map_option (y_prev \<circ> snd) (run exact_fpu [TC6 True 2048, TC6 True 2048] (init exact_fpu))
     = Some (0.628 * 2048)"
  "map_option (y_prev \<circ> snd)
     (run exact_fpu [TC6 True 2048, TC6 True 2048, TC6 True 2048] (init exact_fpu))
     = Some 1764.589568"
  by (simp_all add: adc_handler_True init_def exact_omega) (simp_all add: exact_fpu_def)

section \<open>Rounding\<close>

text \<open>
  Facts about \<open>round_to\<close>: rounding to an integer errs by at most a half and keeps
  the order; the binary exponent brackets its argument; rounding to \<open>p\<close> bits errs by at
  most half a unit, is odd, keeps the order, and is determined by an exponent and an integer
  significand that fit.
\<close>

lemma round_half_even_cases:
  "round_half_even t = \<lfloor>t\<rfloor> \<and> t - of_int \<lfloor>t\<rfloor> \<le> 1 / 2
   \<or> round_half_even t = \<lfloor>t\<rfloor> + 1 \<and> 1 / 2 \<le> t - of_int \<lfloor>t\<rfloor>"
  by (auto simp: round_half_even_def Let_def)

lemma round_half_even_error: "\<bar>of_int (round_half_even t) - t\<bar> \<le> 1 / 2"
proof -
  have "of_int \<lfloor>t\<rfloor> \<le> t" "t < of_int \<lfloor>t\<rfloor> + 1" by linarith+
  with round_half_even_cases[of t] show ?thesis by auto
qed

lemma round_half_even_of_int: "round_half_even (of_int m) = m"
  by (simp add: round_half_even_def)

lemma round_half_even_mono:
  assumes "s \<le> t"
  shows "round_half_even s \<le> round_half_even t"
proof (cases "\<lfloor>s\<rfloor> = \<lfloor>t\<rfloor>")
  case True
  with assms show ?thesis
    by (auto simp: round_half_even_def Let_def)
next
  case False
  with assms have "\<lfloor>s\<rfloor> + 1 \<le> \<lfloor>t\<rfloor>"
    using floor_mono[of s t] by linarith
  moreover have "round_half_even s \<le> \<lfloor>s\<rfloor> + 1" "\<lfloor>t\<rfloor> \<le> round_half_even t"
    using round_half_even_cases[of s] round_half_even_cases[of t] by auto
  ultimately show ?thesis by linarith
qed

lemma round_half_even_le: "t \<le> of_int m \<Longrightarrow> round_half_even t \<le> m"
  using round_half_even_mono[of t "of_int m"] by (simp add: round_half_even_of_int)

lemma round_half_even_ge: "of_int m \<le> t \<Longrightarrow> m \<le> round_half_even t"
  using round_half_even_mono[of "of_int m" t] by (simp add: round_half_even_of_int)

lemma round_half_even_minus: "round_half_even (- t) = - round_half_even t"
proof (cases "t = of_int \<lfloor>t\<rfloor>")
  case True
  then obtain m where m: "t = of_int m" ..
  then have "- t = of_int (- m)" by simp
  then have "round_half_even (- t) = - m" by (simp only: round_half_even_of_int)
  with m show ?thesis by (simp only: round_half_even_of_int)
next
  case False
  have "of_int \<lfloor>t\<rfloor> \<le> t" "t < of_int \<lfloor>t\<rfloor> + 1" by linarith+
  with False have "of_int \<lfloor>t\<rfloor> < t" by linarith
  with \<open>t < of_int \<lfloor>t\<rfloor> + 1\<close> have fl: "\<lfloor>- t\<rfloor> = - \<lfloor>t\<rfloor> - 1"
    by (intro floor_unique) simp_all
  show ?thesis
    unfolding round_half_even_def Let_def fl
    by (simp add: field_simps) 
qed

lemma ilog2_bounds:
  assumes "0 < x"
  shows "2 powi ilog2 x \<le> x" and "x < 2 powi (ilog2 x + 1)"
proof -
  have "2 powi ilog2 x \<le> x \<and> x < 2 powi (ilog2 x + 1)"
  proof (cases "1 \<le> x")
    case True
    define n where "n = nat \<lfloor>x\<rfloor>"
    from True have n: "0 < n" "of_nat n \<le> x" "x < of_nat n + 1"
      unfolding n_def by (simp_all add: of_nat_nat) linarith+
    define k where "k = floorlog 2 n"
    from floorlog_bounds[of n 2] n(1) have b: "2 ^ (k - 1) \<le> n" "n < 2 ^ k"
      by (simp_all add: k_def)
    from n(1) have k: "0 < k" unfolding k_def floorlog_def by simp
    from True have e: "ilog2 x = int k - 1" by (simp add: ilog2_def k_def n_def)
    from k have "(2 :: rat) powi (int k - 1) = 2 ^ (k - 1)"
      by (simp add: power_int_def nat_diff_distrib')
    also have "\<dots> = of_nat (2 ^ (k - 1))" by simp
    also from b(1) have "\<dots> \<le> of_nat n" by (simp only: of_nat_le_iff)
    finally have lo: "2 powi (int k - 1) \<le> x" using n(2) by linarith
    from b(2) have "n + 1 \<le> 2 ^ k" by simp
    then have "(of_nat (n + 1) :: rat) \<le> of_nat (2 ^ k)" by (simp only: of_nat_le_iff)
    then have "x < 2 ^ k" using n(3) by simp
    then have hi: "x < 2 powi (int k - 1 + 1)" by (simp add: power_int_def)
    from lo hi e show ?thesis by simp
  next
    case False
    define c where "c = \<lceil>1 / x\<rceil>"
    from False assms have "1 < 1 / x" by simp
    then have c2: "2 \<le> c" unfolding c_def by linarith
    define m where "m = nat (c - 1)"
    from c2 have m: "0 < m" "int m = c - 1" by (simp_all add: m_def)
    have cx: "1 / x \<le> of_int c" "of_int c - 1 < 1 / x" unfolding c_def by linarith+
    define j where "j = floorlog 2 m"
    from floorlog_bounds[of m 2] m(1) have b: "2 ^ (j - 1) \<le> m" "m < 2 ^ j"
      by (simp_all add: j_def)
    from m(1) have j: "0 < j" unfolding j_def floorlog_def by simp
    from False have e: "ilog2 x = - int j" by (simp add: ilog2_def j_def m_def c_def)
    from b(2) have "m + 1 \<le> 2 ^ j" by simp
    then have "(of_nat (m + 1) :: rat) \<le> of_nat (2 ^ j)" by (simp only: of_nat_le_iff)
    moreover from m(2) have "(of_int c :: rat) = of_nat (m + 1)" by simp
    ultimately have "1 / x \<le> 2 ^ j" using cx(1) by simp
    with assms have "1 / 2 ^ j \<le> x"
      by (simp add: field_simps)
    moreover have "(2 :: rat) powi (- int j) = 1 / 2 ^ j"
      by (simp add: power_int_minus divide_inverse)
    ultimately have lo: "2 powi (- int j) \<le> x" by simp
    from b(1) have "(of_nat (2 ^ (j - 1)) :: rat) \<le> of_nat m" by (simp only: of_nat_le_iff)
    moreover from m(2) have "(of_nat m :: rat) = of_int c - 1" by simp
    ultimately have "2 ^ (j - 1) < 1 / x" using cx(2) by simp
    with assms have "x < 1 / 2 ^ (j - 1)"
      by (simp add: field_simps)
    moreover from j have "(2 :: rat) powi (- int j + 1) = 1 / 2 ^ (j - 1)"
      by (cases j) (simp_all add: power_int_def field_simps nat_add_distrib)
    ultimately have hi: "x < 2 powi (- int j + 1)" by simp
    from lo hi e show ?thesis by simp
  qed
  then show "2 powi ilog2 x \<le> x" and "x < 2 powi (ilog2 x + 1)" by simp_all
qed

lemma round_to_nonzero:
  assumes "x \<noteq> 0"
  shows "round_to p emin x =
           of_int (round_half_even (x / 2 powi (max (ilog2 \<bar>x\<bar>) emin - (int p - 1))))
             * 2 powi (max (ilog2 \<bar>x\<bar>) emin - (int p - 1))"
  using assms by (simp add: round_to_def Let_def)

lemma round_to_zero: "round_to p emin 0 = 0"
  by (simp add: round_to_def)

lemma round_to_minus: "round_to p emin (- x) = - round_to p emin x"
  by (cases "x = 0") (simp_all add: round_to_zero round_to_nonzero round_half_even_minus)

lemma round_to_error:
  "\<bar>round_to p emin x - x\<bar> \<le> 2 powi (- int p) * \<bar>x\<bar> + 2 powi (emin - int p)"
proof (cases "x = 0")
  case True
  then show ?thesis by (simp add: round_to_zero)
next
  case False
  define e where "e = max (ilog2 \<bar>x\<bar>) emin"
  define u :: rat where "u = 2 powi (e - (int p - 1))"
  have u: "0 < u" by (simp add: u_def)
  have r: "round_to p emin x = of_int (round_half_even (x / u)) * u"
    using False by (simp add: round_to_nonzero u_def e_def)
  have "round_to p emin x - x = (of_int (round_half_even (x / u)) - x / u) * u"
    using u by (simp add: r field_simps)
  then have "\<bar>round_to p emin x - x\<bar> = \<bar>of_int (round_half_even (x / u)) - x / u\<bar> * u"
    using u by (simp add: abs_mult)
  also have "\<dots> \<le> 1 / 2 * u"
    using u round_half_even_error[of "x / u"] by (intro mult_right_mono) simp_all
  also have "1 / 2 * u = 2 powi (e - int p)"
  proof -
    have "u = 2 powi ((e - int p) + 1)" by (simp add: u_def algebra_simps)
    also have "\<dots> = 2 powi (e - int p) * 2" by (simp add: power_int_add)
    finally show ?thesis by simp
  qed
  finally have half: "\<bar>round_to p emin x - x\<bar> \<le> 2 powi (e - int p)" .
  have "(2 :: rat) powi (e - int p) \<le> 2 powi (- int p) * \<bar>x\<bar> + 2 powi (emin - int p)"
  proof (cases "emin \<le> ilog2 \<bar>x\<bar>")
    case True
    then have "e = ilog2 \<bar>x\<bar>" by (simp add: e_def)
    then have "(2 :: rat) powi (e - int p) = 2 powi (- int p) * 2 powi ilog2 \<bar>x\<bar>"
      by (simp add: power_int_add power_int_diff power_int_minus field_simps)
    also have "\<dots> \<le> 2 powi (- int p) * \<bar>x\<bar>"
      using ilog2_bounds(1)[of "\<bar>x\<bar>"] False by (intro mult_left_mono) simp_all
    also have "\<dots> \<le> 2 powi (- int p) * \<bar>x\<bar> + 2 powi (emin - int p)" by simp
    finally show ?thesis .
  next
    case False
    then have "e = emin" by (simp add: e_def)
    then show ?thesis by simp
  qed
  with half show ?thesis by linarith
qed

lemma round_to_nonneg:
  assumes "0 \<le> x"
  shows "0 \<le> round_to p emin x"
proof (cases "x = 0")
  case True
  then show ?thesis by (simp add: round_to_zero)
next
  case False
  define u :: rat where "u = 2 powi (max (ilog2 \<bar>x\<bar>) emin - (int p - 1))"
  have u: "0 < u" by (simp add: u_def)
  with assms have "of_int 0 \<le> x / u" by simp
  then have "0 \<le> round_half_even (x / u)" by (rule round_half_even_ge)
  with u show ?thesis
    using False by (simp add: round_to_nonzero u_def[symmetric])
qed

lemma ilog2_mono:
  assumes "0 < x" and "x \<le> y"
  shows "ilog2 x \<le> ilog2 y"
proof (rule ccontr)
  assume "\<not> ilog2 x \<le> ilog2 y"
  then have "ilog2 y + 1 \<le> ilog2 x" by simp
  then have "(2 :: rat) powi (ilog2 y + 1) \<le> 2 powi ilog2 x"
    by (intro power_int_increasing) simp_all
  also have "\<dots> \<le> x" using assms(1) by (rule ilog2_bounds(1))
  also note assms(2)
  also have "y < 2 powi (ilog2 y + 1)" using assms by (intro ilog2_bounds(2)) simp
  finally show False by simp
qed

lemma round_to_mono_pos:
  assumes p: "0 < p" and "0 < x" and "x \<le> y"
  shows "round_to p emin x \<le> round_to p emin y"
proof -
  from assms have y: "0 < y" by simp
  define ex where "ex = max (ilog2 x) emin"
  define ey where "ey = max (ilog2 y) emin"
  define ux :: rat where "ux = 2 powi (ex - (int p - 1))"
  define uy :: rat where "uy = 2 powi (ey - (int p - 1))"
  have ux: "0 < ux" and uy: "0 < uy" by (simp_all add: ux_def uy_def)
  from assms y have rx: "round_to p emin x = of_int (round_half_even (x / ux)) * ux"
    and ry: "round_to p emin y = of_int (round_half_even (y / uy)) * uy"
    by (simp_all add: round_to_nonzero ux_def uy_def ex_def ey_def)
  from ilog2_mono[OF assms(2,3)] have le: "ex \<le> ey" by (simp add: ex_def ey_def)
  show ?thesis
  proof (cases "ex = ey")
    case True
    then have "ux = uy" by (simp add: ux_def uy_def)
    moreover from assms(3) uy have "x / uy \<le> y / uy" by (simp add: divide_right_mono)
    then have "round_half_even (x / uy) \<le> round_half_even (y / uy)"
      by (rule round_half_even_mono)
    ultimately show ?thesis using uy by (simp add: rx ry)
  next
    case False
    with le have lt: "ex + 1 \<le> ey" by simp
    then have "emin < ey" by (simp add: ex_def)
    then have ey: "ey = ilog2 y" by (simp add: ey_def)
    have pw: "(2 :: rat) powi (int p - 1) = of_int (2 ^ (p - 1))" "(2 :: rat) powi int p = of_int (2 ^ p)"
      using p by (simp_all add: power_int_def nat_diff_distrib')
    \<comment> \<open>the rounded \<open>x\<close> does not pass the next power of two\<close>
    have "x < 2 powi (ilog2 x + 1)" using assms(2) by (rule ilog2_bounds(2))
    also have "\<dots> \<le> 2 powi (ex + 1)" by (intro power_int_increasing) (simp_all add: ex_def)
    finally have "x / ux \<le> 2 powi (ex + 1) / ux" using ux by (simp add: divide_right_mono)
    also have "2 powi (ex + 1) / ux = (2 :: rat) powi int p"
      by (simp add: ux_def power_int_diff[symmetric])
    finally have "round_half_even (x / ux) \<le> 2 ^ p"
      unfolding pw by (rule round_half_even_le)
    then have "(of_int (round_half_even (x / ux)) :: rat) \<le> of_int (2 ^ p)"
      by (simp only: of_int_le_iff)
    then have "round_to p emin x \<le> 2 powi int p * ux"
      unfolding rx pw using ux by (intro mult_right_mono) simp_all
    also have "2 powi int p * ux = (2 :: rat) powi (ex + 1)"
    proof -
      have "(2 :: rat) powi (int p + (ex - (int p - 1)))
              = 2 powi int p * 2 powi (ex - (int p - 1))"
        by (rule power_int_add) simp
      moreover have "int p + (ex - (int p - 1)) = ex + 1" by simp
      ultimately show ?thesis by (simp only: ux_def)
    qed
    also have "\<dots> \<le> 2 powi ey" using lt by (intro power_int_increasing) simp_all
    \<comment> \<open>the rounded \<open>y\<close> does not fall below the power of two under it\<close>
    also have "(2 :: rat) powi ey = 2 powi (int p - 1) * uy"
      by (simp add: uy_def power_int_add[symmetric])
    also have "\<dots> \<le> round_to p emin y"
    proof -
      have "2 powi ey \<le> y" unfolding ey using y by (rule ilog2_bounds(1))
      then have "2 powi ey / uy \<le> y / uy" using uy by (simp add: divide_right_mono)
      moreover have "2 powi ey / uy = (2 :: rat) powi (int p - 1)"
        by (simp add: uy_def power_int_diff[symmetric])
      ultimately have "2 ^ (p - 1) \<le> round_half_even (y / uy)"
        unfolding pw by (intro round_half_even_ge) simp
      then have "(of_int (2 ^ (p - 1)) :: rat) \<le> of_int (round_half_even (y / uy))"
        by (simp only: of_int_le_iff)
      then show ?thesis
        unfolding ry pw using uy by (intro mult_right_mono) simp_all
    qed
    finally show ?thesis .
  qed
qed

lemma round_to_mono:
  assumes "0 < p" and "x \<le> y"
  shows "round_to p emin x \<le> round_to p emin y"
proof -
  consider "0 < x" | "y < 0" | "x \<le> 0" "0 \<le> y" by linarith
  then show ?thesis
  proof cases
    case 1
    with assms show ?thesis by (intro round_to_mono_pos)
  next
    case 2
    with assms have "round_to p emin (- y) \<le> round_to p emin (- x)"
      by (intro round_to_mono_pos) simp_all
    then show ?thesis by (simp add: round_to_minus)
  next
    case 3
    from 3(1) have "0 \<le> round_to p emin (- x)" by (intro round_to_nonneg) simp
    then have "round_to p emin x \<le> 0" by (simp add: round_to_minus)
    also from 3(2) have "0 \<le> round_to p emin y" by (rule round_to_nonneg)
    finally show ?thesis .
  qed
qed

lemma ilog2_unique:
  assumes "0 < x" and "2 powi e \<le> x" and "x < 2 powi (e + 1)"
  shows "ilog2 x = e"
proof (rule ccontr)
  assume ne: "ilog2 x \<noteq> e"
  note b = ilog2_bounds[OF assms(1)]
  show False
  proof (cases "ilog2 x < e")
    case True
    then have "(2 :: rat) powi (ilog2 x + 1) \<le> 2 powi e"
      by (intro power_int_increasing) simp_all
    with b(2) assms(2) show False by linarith
  next
    case False
    with ne have "(2 :: rat) powi (e + 1) \<le> 2 powi ilog2 x"
      by (intro power_int_increasing) simp_all
    with b(1) assms(3) show False by linarith
  qed
qed

lemma round_half_even_near:
  assumes "\<bar>t - of_int k\<bar> < 1 / 2"
  shows "round_half_even t = k"
proof -
  have "\<bar>(of_int (round_half_even t) :: rat) - of_int k\<bar> < 1"
    using round_half_even_error[of t] assms by linarith
  then have "\<bar>(of_int (round_half_even t - k) :: rat)\<bar> < of_int 1"
    by simp
  then have "\<bar>round_half_even t - k\<bar> < 1"
    by (simp only: of_int_abs[symmetric] of_int_less_iff)
  then show ?thesis by linarith
qed

lemma round_to_eq:
  assumes "0 < x" and "2 powi e \<le> x" and "x < 2 powi (e + 1)" and "emin \<le> e"
    and "\<bar>x / 2 powi (e - (int p - 1)) - of_int k\<bar> < 1 / 2"
  shows "round_to p emin x = of_int k * 2 powi (e - (int p - 1))"
proof -
  from assms(1-3) have "ilog2 \<bar>x\<bar> = e" by (simp add: ilog2_unique)
  with assms(4) have "max (ilog2 \<bar>x\<bar>) emin = e" by simp
  with assms(1,5) show ?thesis
    by (simp add: round_to_nonzero round_half_even_near)
qed

lemma round_half_even_tie:
  assumes "t = of_int f + 1 / 2"
  shows "round_half_even t = (if even f then f else f + 1)"
proof -
  from assms have "\<lfloor>t\<rfloor> = f" by (intro floor_unique) simp_all
  with assms show ?thesis by (simp add: round_half_even_def)
qed

lemma round_to_eq_tie:
  assumes "0 < x" and "2 powi e \<le> x" and "x < 2 powi (e + 1)" and "emin \<le> e"
    and "x / 2 powi (e - (int p - 1)) = of_int f + 1 / 2"
  shows "round_to p emin x = of_int (if even f then f else f + 1) * 2 powi (e - (int p - 1))"
proof -
  from assms(1-3) have "ilog2 \<bar>x\<bar> = e" by (simp add: ilog2_unique)
  with assms(4) have "max (ilog2 \<bar>x\<bar>) emin = e" by simp
  with assms(1) round_half_even_tie[OF assms(5)] show ?thesis
    by (simp add: round_to_nonzero)
qed

section \<open>The filter in single precision\<close>

lemma pw24: "(2 :: rat) powi (- 24) = 1 / 2 ^ 24"
  by (simp only: power_int_minus power_int_numeral divide_inverse mult_1)

lemma pw150: "(2 :: rat) powi (- 150) = 1 / 2 ^ 150"
  by (simp only: power_int_minus power_int_numeral divide_inverse mult_1)

lemma round32_error: "\<bar>round32 x - x\<bar> \<le> \<bar>x\<bar> / 2 ^ 24 + 1 / 2 ^ 150"
proof -
  have "\<bar>round_to 24 (- 126) x - x\<bar> \<le> 2 powi (- int 24) * \<bar>x\<bar> + 2 powi (- 126 - int 24)"
    by (rule round_to_error)
  moreover have "- int 24 = - 24" "- 126 - int 24 = - 150" by simp_all
  ultimately have "\<bar>round32 x - x\<bar> \<le> 2 powi (- 24) * \<bar>x\<bar> + 2 powi (- 150)"
    by (simp only: round32_def)
  then show ?thesis
    by (simp only: pw24 pw150 times_divide_eq_left mult_1)
qed

lemma round32_mono: "x \<le> y \<Longrightarrow> round32 x \<le> round32 y"
  unfolding round32_def by (rule round_to_mono) simp_all

lemma round32_zero: "round32 0 = 0"
  by (simp add: round32_def round_to_zero)

lemma round64_pi: "round64 (157 / 50) = 7070651414971679 / 2251799813685248"
  unfolding round64_def
  using round_to_eq[of "157 / 50" "1" "-1022" 53 7070651414971679] by simp

lemma round64_200_pi: "round64 (176766285374291975 / 281474976710656) = 628"
  unfolding round64_def
  using round_to_eq[of "176766285374291975 / 281474976710656" "9" "-1022" 53 5523946417946624]
  by simp

lemma round64_omega: "round64 (157 / 250) = 5656521131977343 / 9007199254740992"
  unfolding round64_def
  using round_to_eq[of "157 / 250" "-1" "-1022" 53 5656521131977343] by simp

lemma round32_omega: "round32 (5656521131977343 / 9007199254740992) = 2634023 / 4194304"
  unfolding round32_def
  using round_to_eq[of "5656521131977343 / 9007199254740992" "-1" "-126" 24 10536092] by simp

lemma round32_one: "round32 1 = 1"
  unfolding round32_def
  using round_to_eq[of 1 0 "-126" 24 8388608] by simp

lemma round32_one_minus_omega: "round32 (1560281 / 4194304) = 1560281 / 4194304"
  unfolding round32_def
  using round_to_eq[of "1560281 / 4194304" "-2" "-126" 24 12482248] by simp

lemma binary32_omega: "omega binary32_fpu = Binary32 (2634023 / 4194304)"
  by (simp add: binary32_fpu_def round64_pi round64_200_pi round64_omega round32_omega)

lemma binary32_one_minus_omega:
  "int_to_float binary32_fpu 1 - omega binary32_fpu = Binary32 (1560281 / 4194304)"
  unfolding binary32_omega
  by (simp add: binary32_fpu_def minus_binary32_def round32_one round32_one_minus_omega)

lemma binary32_step:
  assumes "length (display_number st) = 4"
  shows "\<exists>outs st'. adc_handler binary32_fpu True s st = Some (outs, st')
           \<and> length (display_number st') = 4
           \<and> x_prev st' = uint32_to_float binary32_fpu s
           \<and> value32 (y_prev st') =
                round32 (round32 (1560281 / 4194304 * value32 (y_prev st))
                          + round32 (2634023 / 4194304 * value32 (x_prev st)))"
  by (simp add: adc_handler_True[OF assms] binary32_one_minus_omega)
     (simp add: binary32_omega plus_binary32_def times_binary32_def)

lemma lpf32_error:
  fixes y X :: rat
  defines "y' \<equiv> round32 (round32 (1560281 / 4194304 * y) + round32 (2634023 / 4194304 * X))"
  shows "\<bar>(y' - X) - 1560281 / 4194304 * (y - X)\<bar>
           \<le> (\<bar>X\<bar> + \<bar>y - X\<bar>) / 2 ^ 22 + 1 / 2 ^ 148"
proof -
  define p where "p = round32 (1560281 / 4194304 * y)"
  define q where "q = round32 (2634023 / 4194304 * X)"
  define M where "M = 1560281 / 4194304 * \<bar>y\<bar> + 2634023 / 4194304 * \<bar>X\<bar>"
  have d1: "\<bar>p - 1560281 / 4194304 * y\<bar> \<le> 1560281 / 4194304 * \<bar>y\<bar> / 2 ^ 24 + 1 / 2 ^ 150"
    using round32_error[of "1560281 / 4194304 * y"] by (simp add: p_def abs_mult)
  have d2: "\<bar>q - 2634023 / 4194304 * X\<bar> \<le> 2634023 / 4194304 * \<bar>X\<bar> / 2 ^ 24 + 1 / 2 ^ 150"
    using round32_error[of "2634023 / 4194304 * X"] by (simp add: q_def abs_mult)
  have d3: "\<bar>y' - (p + q)\<bar> \<le> \<bar>p + q\<bar> / 2 ^ 24 + 1 / 2 ^ 150"
    using round32_error[of "p + q"] by (simp add: y'_def p_def q_def)
  have "\<bar>1560281 / 4194304 * y\<bar> = 1560281 / 4194304 * \<bar>y\<bar>"
       "\<bar>2634023 / 4194304 * X\<bar> = 2634023 / 4194304 * \<bar>X\<bar>"
    by (simp_all add: abs_mult)
  with d1 d2 have pq: "\<bar>p + q\<bar> \<le> M + M / 2 ^ 24 + 2 / 2 ^ 150"
    unfolding M_def by (simp add: add_divide_distrib) linarith
  have "\<bar>y\<bar> \<le> \<bar>X\<bar> + \<bar>y - X\<bar>" by linarith
  then have M: "M \<le> \<bar>X\<bar> + \<bar>y - X\<bar>" "0 \<le> M"
    unfolding M_def by linarith+
  have "(y' - X) - 1560281 / 4194304 * (y - X)
          = (y' - (p + q)) + (p - 1560281 / 4194304 * y) + (q - 2634023 / 4194304 * X)"
    by (simp add: field_simps)
  then have "\<bar>(y' - X) - 1560281 / 4194304 * (y - X)\<bar>
          \<le> \<bar>y' - (p + q)\<bar> + \<bar>p - 1560281 / 4194304 * y\<bar> + \<bar>q - 2634023 / 4194304 * X\<bar>"
    by linarith
  also have "\<dots> \<le> (M + M / 2 ^ 24 + 2 / 2 ^ 150) / 2 ^ 24 + 1 / 2 ^ 150 + (M / 2 ^ 24 + 2 / 2 ^ 150)"
  proof -
    from pq have "\<bar>p + q\<bar> / 2 ^ 24 \<le> (M + M / 2 ^ 24 + 2 / 2 ^ 150) / 2 ^ 24"
      by (rule divide_right_mono) simp
    moreover from d1 d2 have "\<bar>p - 1560281 / 4194304 * y\<bar> + \<bar>q - 2634023 / 4194304 * X\<bar>
        \<le> M / 2 ^ 24 + 2 / 2 ^ 150"
      unfolding M_def by (simp add: add_divide_distrib)
    ultimately show ?thesis using d3 by linarith
  qed
  also have "\<dots> \<le> M / 2 ^ 22 + 1 / 2 ^ 148"
    using M(2) by (simp add: field_simps)
  also have "\<dots> \<le> (\<bar>X\<bar> + \<bar>y - X\<bar>) / 2 ^ 22 + 1 / 2 ^ 148"
    using M(1) by (simp add: divide_right_mono)
  finally show ?thesis .
qed

lemma round32_7: "round32 (7) = 7"
  unfolding round32_def
  using round_to_eq[of "7" "2" "-126" 24 14680064] by simp

lemma round32_1023: "round32 (1023) = 1023"
  unfolding round32_def
  using round_to_eq[of "1023" "9" "-126" 24 16760832] by simp

lemma round32_2048: "round32 (2048) = 2048"
  unfolding round32_def
  using round_to_eq[of "2048" "11" "-126" 24 8388608] by simp

lemma round32_4095: "round32 (4095) = 4095"
  unfolding round32_def
  using round_to_eq[of "4095" "11" "-126" 24 16773120] by simp

lemma round32_omega_2048: "round32 (2634023 / 2048) = 2634023 / 2048"
  unfolding round32_def
  using round_to_eq[of "2634023 / 2048" "10" "-126" 24 10536092] by simp

lemma round32_step3_decay: "round32 (4109816040463 / 8589934592) = 1959713 / 4096"
  unfolding round32_def
  using round_to_eq[of "4109816040463 / 8589934592" "8" "-126" 24 15677704] by simp

lemma round32_step3_sum: "round32 (7227759 / 4096) = 7227759 / 4096"
  unfolding round32_def
  using round_to_eq[of "7227759 / 4096" "10" "-126" 24 14455518] by simp

lemma round32_decay_2048: "round32 (1560281 / 2048) = 1560281 / 2048"
  unfolding round32_def
  using round_to_eq[of "1560281 / 2048" "9" "-126" 24 12482248] by simp

lemma round32_stall_decay: "round32 (22905023377703 / 8796093022208) = 5460983 / 2097152"
  unfolding round32_def
  using round_to_eq[of "22905023377703 / 8796093022208" "1" "-126" 24 10921966] by simp

lemma round32_stall_gain: "round32 (18438161 / 4194304) = 1152385 / 262144"
  unfolding round32_def
  using round_to_eq_tie[of "18438161 / 4194304" "2" "-126" 24 9219080] by simp

lemma round32_stall_sum: "round32 (14680063 / 2097152) = 14680063 / 2097152"
  unfolding round32_def
  using round_to_eq[of "14680063 / 2097152" "2" "-126" 24 14680063] by simp

lemma round32_2048_by_1023: "round32 (2095104) = 2095104"
  unfolding round32_def
  using round_to_eq[of "2095104" "20" "-126" 24 16760832] by simp

lemma round32_2048_rescaled: "round32 (698368 / 1365) = 16764925 / 32768"
  unfolding round32_def
  using round_to_eq[of "698368 / 1365" "8" "-126" 24 16764925] by simp

lemma round32_4095_by_1023: "round32 (4189185) = 4189185"
  unfolding round32_def
  using round_to_eq[of "4189185" "21" "-126" 24 16756740] by simp

lemma lpf32_contract:
  fixes y X :: rat
  shows "\<bar>round32 (round32 (1560281 / 4194304 * y) + round32 (2634023 / 4194304 * X)) - X\<bar>
           \<le> 3 / 8 * \<bar>y - X\<bar> + (\<bar>X\<bar> / 2 ^ 22 + 1 / 2 ^ 148)"
proof -
  define y' where "y' = round32 (round32 (1560281 / 4194304 * y) + round32 (2634023 / 4194304 * X))"
  have "\<bar>(y' - X) - 1560281 / 4194304 * (y - X)\<bar> \<le> (\<bar>X\<bar> + \<bar>y - X\<bar>) / 2 ^ 22 + 1 / 2 ^ 148"
    unfolding y'_def by (rule lpf32_error)
  moreover have "\<bar>1560281 / 4194304 * (y - X)\<bar> = 1560281 / 4194304 * \<bar>y - X\<bar>"
    by (subst abs_mult) simp
  ultimately have "\<bar>y' - X\<bar> \<le> 1560281 / 4194304 * \<bar>y - X\<bar> + (\<bar>X\<bar> + \<bar>y - X\<bar>) / 2 ^ 22 + 1 / 2 ^ 148"
    by linarith
  also have "\<dots> \<le> 3 / 8 * \<bar>y - X\<bar> + (\<bar>X\<bar> / 2 ^ 22 + 1 / 2 ^ 148)"
    by (simp add: add_divide_distrib)
  finally show ?thesis unfolding y'_def .
qed

lemma binary32_constant_input:
  assumes "length (display_number st) = 4" and "x_prev st = uint32_to_float binary32_fpu s"
  shows "\<exists>outs st'. run binary32_fpu (replicate n (TC6 True s)) st = Some (outs, st')
           \<and> length (display_number st') = 4
           \<and> x_prev st' = uint32_to_float binary32_fpu s
           \<and> \<bar>value32 (y_prev st') - value32 (uint32_to_float binary32_fpu s)\<bar>
               \<le> (3 / 8) ^ n * \<bar>value32 (y_prev st) - value32 (uint32_to_float binary32_fpu s)\<bar>
                  + (1 - (3 / 8) ^ n) * (8 / 5
                      * (\<bar>value32 (uint32_to_float binary32_fpu s)\<bar> / 2 ^ 22 + 1 / 2 ^ 148))"
  using assms
proof (induction n arbitrary: st)
  case 0
  then show ?case by simp
next
  case (Suc n)
  define X where "X = value32 (uint32_to_float binary32_fpu s)"
  define b where "b = \<bar>X\<bar> / 2 ^ 22 + 1 / 2 ^ 148"
  define r :: rat where "r = (3 / 8) ^ n"
  have r: "0 \<le> r" by (simp add: r_def)
  from binary32_step[OF Suc.prems(1), of s] obtain o1 s1 where
    h: "adc_handler binary32_fpu True s st = Some (o1, s1)" and
    l: "length (display_number s1) = 4" and x: "x_prev s1 = uint32_to_float binary32_fpu s" and
    y: "value32 (y_prev s1) =
          round32 (round32 (1560281 / 4194304 * value32 (y_prev st))
                    + round32 (2634023 / 4194304 * value32 (x_prev st)))"
    by blast
  from y Suc.prems(2) have e1: "\<bar>value32 (y_prev s1) - X\<bar> \<le> 3 / 8 * \<bar>value32 (y_prev st) - X\<bar> + b"
    unfolding X_def b_def by (simp only: lpf32_contract)
  from Suc.IH[OF l x] obtain o2 s2 where
    run: "run binary32_fpu (replicate n (TC6 True s)) s1 = Some (o2, s2)" and
    l2: "length (display_number s2) = 4" and x2: "x_prev s2 = uint32_to_float binary32_fpu s" and
    e2: "\<bar>value32 (y_prev s2) - X\<bar> \<le> r * \<bar>value32 (y_prev s1) - X\<bar> + (1 - r) * (8 / 5 * b)"
    unfolding X_def b_def r_def by blast
  from h run have "run binary32_fpu (replicate (Suc n) (TC6 True s)) st = Some (o1 @ o2, s2)"
    by simp
  moreover have "\<bar>value32 (y_prev s2) - X\<bar>
      \<le> (3 / 8) ^ Suc n * \<bar>value32 (y_prev st) - X\<bar> + (1 - (3 / 8) ^ Suc n) * (8 / 5 * b)"
  proof -
    from e1 r have "r * \<bar>value32 (y_prev s1) - X\<bar> \<le> r * (3 / 8 * \<bar>value32 (y_prev st) - X\<bar> + b)"
      by (rule mult_left_mono)
    with e2 have "\<bar>value32 (y_prev s2) - X\<bar>
        \<le> r * (3 / 8 * \<bar>value32 (y_prev st) - X\<bar> + b) + (1 - r) * (8 / 5 * b)"
      by linarith
    also have "\<dots> = (3 / 8) ^ Suc n * \<bar>value32 (y_prev st) - X\<bar> + (1 - (3 / 8) ^ Suc n) * (8 / 5 * b)"
      by (simp add: r_def algebra_simps)
    finally show ?thesis .
  qed
  ultimately show ?case using l2 x2 unfolding X_def b_def by blast
qed

lemma binary32_uint32_to_float:
  "value32 (uint32_to_float binary32_fpu s) = round32 (of_nat (unat s))"
  by (simp add: binary32_fpu_def)

lemma binary32_step_values:
  assumes "length (display_number st) = 4"
    and "value32 (y_prev st) = y" and "value32 (x_prev st) = x"
  shows "\<exists>outs st'. adc_handler binary32_fpu True s st = Some (outs, st')
           \<and> length (display_number st') = 4
           \<and> value32 (x_prev st') = round32 (of_nat (unat s))
           \<and> value32 (y_prev st') =
                round32 (round32 (1560281 / 4194304 * y) + round32 (2634023 / 4194304 * x))"
  using binary32_step[OF assms(1), of s] assms(2,3)
  by (auto simp: binary32_uint32_to_float)

lemma binary32_scenario:
  "map_option (value32 \<circ> y_prev \<circ> snd)
     (run binary32_fpu [TC6 True 2048] (init binary32_fpu)) = Some 0"
  "map_option (value32 \<circ> y_prev \<circ> snd)
     (run binary32_fpu [TC6 True 2048, TC6 True 2048] (init binary32_fpu))
     = Some (2634023 / 2048)"
  "map_option (value32 \<circ> y_prev \<circ> snd)
     (run binary32_fpu [TC6 True 2048, TC6 True 2048, TC6 True 2048] (init binary32_fpu))
     = Some (7227759 / 4096)"
proof -
  have i: "length (display_number (init binary32_fpu)) = 4"
    "value32 (y_prev (init binary32_fpu)) = 0" "value32 (x_prev (init binary32_fpu)) = 0"
    by (simp_all add: init_def binary32_fpu_def round32_zero)
  from binary32_step_values[OF i, of 2048] obtain o1 s1 where
    h1: "adc_handler binary32_fpu True 2048 (init binary32_fpu) = Some (o1, s1)" and
    l1: "length (display_number s1) = 4" and x1: "value32 (x_prev s1) = 2048" and
    y1: "value32 (y_prev s1) = 0"
    by (auto simp: round32_zero round32_2048)
  from binary32_step_values[OF l1 y1 x1, of 2048] obtain o2 s2 where
    h2: "adc_handler binary32_fpu True 2048 s1 = Some (o2, s2)" and
    l2: "length (display_number s2) = 4" and x2: "value32 (x_prev s2) = 2048" and
    y2: "value32 (y_prev s2) = 2634023 / 2048"
    by (auto simp: round32_zero round32_2048 round32_omega_2048)
  from binary32_step_values[OF l2 y2 x2, of 2048] obtain o3 s3 where
    h3: "adc_handler binary32_fpu True 2048 s2 = Some (o3, s3)" and
    y3: "value32 (y_prev s3) = 7227759 / 4096"
    by (auto simp: round32_2048 round32_omega_2048 round32_step3_decay round32_step3_sum)
  from h1 y1 show "map_option (value32 \<circ> y_prev \<circ> snd)
     (run binary32_fpu [TC6 True 2048] (init binary32_fpu)) = Some 0"
    by simp
  from h1 h2 y2 show "map_option (value32 \<circ> y_prev \<circ> snd)
     (run binary32_fpu [TC6 True 2048, TC6 True 2048] (init binary32_fpu))
     = Some (2634023 / 2048)"
    by simp
  from h1 h2 h3 y3 show "map_option (value32 \<circ> y_prev \<circ> snd)
     (run binary32_fpu [TC6 True 2048, TC6 True 2048, TC6 True 2048] (init binary32_fpu))
     = Some (7227759 / 4096)"
    by simp
qed

lemma binary32_stall_step:
  assumes "length (display_number st) = 4"
    and "value32 (y_prev st) = 14680063 / 2097152" and "value32 (x_prev st) = 7"
  shows "\<exists>outs st'. adc_handler binary32_fpu True 7 st = Some (outs, st')
           \<and> length (display_number st') = 4
           \<and> value32 (x_prev st') = 7
           \<and> value32 (y_prev st') = 14680063 / 2097152"
  using binary32_step_values[OF assms, of 7]
  by (simp add: round32_7 round32_stall_decay round32_stall_gain round32_stall_sum)

lemma binary32_stall:
  assumes "length (display_number st) = 4"
    and "value32 (y_prev st) = 14680063 / 2097152" and "value32 (x_prev st) = 7"
  shows "\<exists>outs st'. run binary32_fpu (replicate n (TC6 True 7)) st = Some (outs, st')
           \<and> value32 (y_prev st') = 14680063 / 2097152"
  using assms
proof (induction n arbitrary: st)
  case 0
  then show ?case by simp
next
  case (Suc n)
  from binary32_stall_step[OF Suc.prems] obtain o1 s1 where
    h: "adc_handler binary32_fpu True 7 st = Some (o1, s1)" and
    inv: "length (display_number s1) = 4" "value32 (y_prev s1) = 14680063 / 2097152"
         "value32 (x_prev s1) = 7"
    by blast
  from Suc.IH[OF inv] obtain o2 s2 where
    "run binary32_fpu (replicate n (TC6 True 7)) s1 = Some (o2, s2)"
    "value32 (y_prev s2) = 14680063 / 2097152"
    by blast
  with h show ?case by simp
qed

subsection \<open>The scenario, activation by activation\<close>

text \<open>
  The roundings met on the way from \<open>0\<close> to \<open>2048\<close> under the constant sample \<open>2048\<close>.
\<close>

lemma round32_settle_decay_3: "round32 (11277335040279 / 17179869184) = 10754905 / 16384"
  unfolding round32_def
  using round_to_eq[of "11277335040279 / 17179869184" "9" "-126" 24 10754905] by simp

lemma round32_settle_sum_3: "round32 (31827089 / 16384) = 1989193 / 1024"
  unfolding round32_def
  using round_to_eq_tie[of "31827089 / 16384" "10" "-126" 24 15913544] by simp

lemma round32_settle_decay_4: "round32 (3103700043233 / 4294967296) = 2959919 / 4096"
  unfolding round32_def
  using round_to_eq[of "3103700043233 / 4294967296" "9" "-126" 24 11839676] by simp

lemma round32_settle_sum_4: "round32 (8227965 / 4096) = 8227965 / 4096"
  unfolding round32_def
  using round_to_eq[of "8227965 / 4096" "10" "-126" 24 16455930] by simp

lemma round32_settle_decay_5: "round32 (12837937458165 / 17179869184) = 12243211 / 16384"
  unfolding round32_def
  using round_to_eq[of "12837937458165 / 17179869184" "9" "-126" 24 12243211] by simp

lemma round32_settle_sum_5: "round32 (33315395 / 16384) = 8328849 / 4096"
  unfolding round32_def
  using round_to_eq_tie[of "33315395 / 16384" "10" "-126" 24 16657697] by simp

lemma round32_settle_decay_6: "round32 (12995344846569 / 17179869184) = 12393327 / 16384"
  unfolding round32_def
  using round_to_eq[of "12995344846569 / 17179869184" "9" "-126" 24 12393327] by simp

lemma round32_settle_sum_6: "round32 (33465511 / 16384) = 4183189 / 2048"
  unfolding round32_def
  using round_to_eq_tie[of "33465511 / 16384" "10" "-126" 24 16732755] by simp

lemma round32_settle_decay_7: "round32 (6526950316109 / 8589934592) = 6224585 / 8192"
  unfolding round32_def
  using round_to_eq[of "6526950316109 / 8589934592" "9" "-126" 24 12449170] by simp

lemma round32_settle_sum_7: "round32 (16760677 / 8192) = 16760677 / 8192"
  unfolding round32_def
  using round_to_eq[of "16760677 / 8192" "10" "-126" 24 16760677] by simp

lemma round32_settle_decay_8: "round32 (26151365870237 / 34359738368) = 12469943 / 16384"
  unfolding round32_def
  using round_to_eq[of "26151365870237 / 34359738368" "9" "-126" 24 12469943] by simp

lemma round32_settle_sum_8: "round32 (33542127 / 16384) = 2096383 / 1024"
  unfolding round32_def
  using round_to_eq_tie[of "33542127 / 16384" "10" "-126" 24 16771063] by simp

lemma round32_settle_decay_9: "round32 (3270946563623 / 4294967296) = 12477671 / 16384"
  unfolding round32_def
  using round_to_eq[of "3270946563623 / 4294967296" "9" "-126" 24 12477671] by simp

lemma round32_settle_sum_9: "round32 (33549855 / 16384) = 1048433 / 512"
  unfolding round32_def
  using round_to_eq_tie[of "33549855 / 16384" "10" "-126" 24 16774927] by simp

lemma round32_settle_decay_10: "round32 (1635850089673 / 2147483648) = 6240273 / 8192"
  unfolding round32_def
  using round_to_eq[of "1635850089673 / 2147483648" "9" "-126" 24 12480546] by simp

lemma round32_settle_sum_10: "round32 (16776365 / 8192) = 16776365 / 8192"
  unfolding round32_def
  using round_to_eq[of "16776365 / 8192" "10" "-126" 24 16776365] by simp

lemma round32_settle_decay_11: "round32 (26175843558565 / 34359738368) = 12481615 / 16384"
  unfolding round32_def
  using round_to_eq[of "26175843558565 / 34359738368" "9" "-126" 24 12481615] by simp

lemma round32_settle_sum_11: "round32 (33553799 / 16384) = 4194225 / 2048"
  unfolding round32_def
  using round_to_eq_tie[of "33553799 / 16384" "10" "-126" 24 16776899] by simp

lemma round32_settle_decay_12: "round32 (6544169577225 / 8589934592) = 12482013 / 16384"
  unfolding round32_def
  using round_to_eq[of "6544169577225 / 8589934592" "9" "-126" 24 12482013] by simp

lemma round32_settle_sum_12: "round32 (33554197 / 16384) = 8388549 / 4096"
  unfolding round32_def
  using round_to_eq_tie[of "33554197 / 16384" "10" "-126" 24 16777098] by simp

lemma round32_settle_decay_13: "round32 (13088493622269 / 17179869184) = 780135 / 1024"
  unfolding round32_def
  using round_to_eq[of "13088493622269 / 17179869184" "9" "-126" 24 12482160] by simp

lemma round32_settle_sum_13: "round32 (4194293 / 2048) = 4194293 / 2048"
  unfolding round32_def
  using round_to_eq[of "4194293 / 2048" "10" "-126" 24 16777172] by simp

lemma round32_settle_decay_14: "round32 (6544275676333 / 8589934592) = 12482215 / 16384"
  unfolding round32_def
  using round_to_eq[of "6544275676333 / 8589934592" "9" "-126" 24 12482215] by simp

lemma round32_settle_sum_14: "round32 (33554399 / 16384) = 1048575 / 512"
  unfolding round32_def
  using round_to_eq_tie[of "33554399 / 16384" "10" "-126" 24 16777199] by simp

lemma round32_settle_decay_15: "round32 (1636071649575 / 2147483648) = 3120559 / 4096"
  unfolding round32_def
  using round_to_eq[of "1636071649575 / 2147483648" "9" "-126" 24 12482236] by simp

lemma round32_settle_sum_15: "round32 (8388605 / 4096) = 8388605 / 4096"
  unfolding round32_def
  using round_to_eq[of "8388605 / 4096" "10" "-126" 24 16777210] by simp

lemma round32_settle_decay_16: "round32 (13088580998005 / 17179869184) = 3120561 / 4096"
  unfolding round32_def
  using round_to_eq[of "13088580998005 / 17179869184" "9" "-126" 24 12482244] by simp

lemma round32_settle_sum_16: "round32 (8388607 / 4096) = 8388607 / 4096"
  unfolding round32_def
  using round_to_eq[of "8388607 / 4096" "10" "-126" 24 16777214] by simp

lemma round32_settle_decay_17: "round32 (13088584118567 / 17179869184) = 12482247 / 16384"
  unfolding round32_def
  using round_to_eq[of "13088584118567 / 17179869184" "9" "-126" 24 12482247] by simp

lemma round32_settle_sum_17: "round32 (33554431 / 16384) = 2048"
  unfolding round32_def
  using round_to_eq_tie[of "33554431 / 16384" "10" "-126" 24 16777215] by simp

lemma lpf32_2048_settles:
  "((\<lambda>y. round32 (round32 (1560281 / 4194304 * y) + round32 (2634023 / 4194304 * 2048))) ^^ 17) 0
     = 2048"
  by (simp add: eval_nat_numeral round32_zero round32_2048 round32_omega_2048 round32_step3_decay round32_step3_sum round32_settle_decay_3 round32_settle_sum_3 round32_settle_decay_4 round32_settle_sum_4 round32_settle_decay_5 round32_settle_sum_5 round32_settle_decay_6 round32_settle_sum_6 round32_settle_decay_7 round32_settle_sum_7 round32_settle_decay_8 round32_settle_sum_8 round32_settle_decay_9 round32_settle_sum_9 round32_settle_decay_10 round32_settle_sum_10 round32_settle_decay_11 round32_settle_sum_11 round32_settle_decay_12 round32_settle_sum_12 round32_settle_decay_13 round32_settle_sum_13 round32_settle_decay_14 round32_settle_sum_14 round32_settle_decay_15 round32_settle_sum_15 round32_settle_decay_16 round32_settle_sum_16 round32_settle_decay_17 round32_settle_sum_17)

lemma lpf32_2048_fixed:
  "((\<lambda>y. round32 (round32 (1560281 / 4194304 * y) + round32 (2634023 / 4194304 * 2048))) ^^ m) 2048
     = 2048"
  by (induction m) (simp_all add: round32_decay_2048 round32_omega_2048 round32_2048)

lemma binary32_constant_input_value:
  assumes "length (display_number st) = 4"
    and "value32 (x_prev st) = round32 (of_nat (unat s))"
  shows "\<exists>outs st'. run binary32_fpu (replicate n (TC6 True s)) st = Some (outs, st')
           \<and> value32 (y_prev st') =
               ((\<lambda>y. round32 (round32 (1560281 / 4194304 * y)
                         + round32 (2634023 / 4194304 * round32 (of_nat (unat s))))) ^^ n)
                 (value32 (y_prev st))"
  using assms
proof (induction n arbitrary: st)
  case 0
  then show ?case by simp
next
  case (Suc n)
  from binary32_step_values[OF Suc.prems(1) refl Suc.prems(2), of s] obtain o1 s1 where
    h: "adc_handler binary32_fpu True s st = Some (o1, s1)" and
    l: "length (display_number s1) = 4" and
    x: "value32 (x_prev s1) = round32 (of_nat (unat s))" and
    y: "value32 (y_prev s1) =
          round32 (round32 (1560281 / 4194304 * value32 (y_prev st))
                    + round32 (2634023 / 4194304 * round32 (of_nat (unat s))))"
    by blast
  from Suc.IH[OF l x] obtain o2 s2 where
    r: "run binary32_fpu (replicate n (TC6 True s)) s1 = Some (o2, s2)" and
    v: "value32 (y_prev s2) =
          ((\<lambda>y. round32 (round32 (1560281 / 4194304 * y)
                    + round32 (2634023 / 4194304 * round32 (of_nat (unat s))))) ^^ n)
            (value32 (y_prev s1))"
    by blast
  from h r have t: "run binary32_fpu (replicate (Suc n) (TC6 True s)) st = Some (o1 @ o2, s2)"
    by simp
  have "value32 (y_prev s2) =
          ((\<lambda>y. round32 (round32 (1560281 / 4194304 * y)
                    + round32 (2634023 / 4194304 * round32 (of_nat (unat s))))) ^^ Suc n)
            (value32 (y_prev st))"
    unfolding v y by (simp only: funpow_Suc_right o_apply)
  with t show ?case by blast
qed

lemma binary32_scenario_settles:
  "\<exists>outs st'. run binary32_fpu (replicate (18 + m) (TC6 True 2048)) (init binary32_fpu)
                  = Some (outs, st')
             \<and> value32 (y_prev st') = 2048"
proof -
  have i: "length (display_number (init binary32_fpu)) = 4"
    "value32 (y_prev (init binary32_fpu)) = 0" "value32 (x_prev (init binary32_fpu)) = 0"
    by (simp_all add: init_def binary32_fpu_def round32_zero)
  from binary32_step_values[OF i, of 2048] obtain o1 s1 where
    h1: "adc_handler binary32_fpu True 2048 (init binary32_fpu) = Some (o1, s1)" and
    l1: "length (display_number s1) = 4" and x1: "value32 (x_prev s1) = 2048" and
    y1: "value32 (y_prev s1) = 0"
    by (auto simp: round32_zero round32_2048)
  have u: "round32 (of_nat (unat (2048 :: UINT32))) = 2048"
    by (simp add: round32_2048)
  from x1 u have x1': "value32 (x_prev s1) = round32 (of_nat (unat (2048 :: UINT32)))"
    by simp
  from binary32_constant_input_value[OF l1 x1', of "17 + m"] obtain o2 s2 where
    r: "run binary32_fpu (replicate (17 + m) (TC6 True 2048)) s1 = Some (o2, s2)" and
    v: "value32 (y_prev s2) =
          ((\<lambda>y. round32 (round32 (1560281 / 4194304 * y)
                    + round32 (2634023 / 4194304 * 2048))) ^^ (17 + m)) 0"
    unfolding u y1 by blast
  have "value32 (y_prev s2) = 2048"
    unfolding v by (simp only: add.commute[of 17 m] funpow_add o_apply lpf32_2048_settles
        lpf32_2048_fixed)
  moreover have "replicate (18 + m) (TC6 True 2048) = TC6 True 2048 # replicate (17 + m) (TC6 True 2048)"
    by (simp add: numeral_eq_Suc)
  ultimately show ?thesis using h1 r by simp
qed

text \<open>
  Claim C3, amended. In single precision \<open>omega\<close> is \<open>2634023/4194304\<close>, the
  binary32 value next to \<open>0.628\<close>, and \<open>1 - omega\<close> is \<open>1560281/4194304\<close>. For every
  state with the four-cell buffer and every constant sample \<open>s\<close>, with \<open>X\<close> the converted
  sample: after the first activation, one more activation takes the error \<open>e1 = y - X\<close>
  to an error \<open>e2\<close> with
  \<open>\<bar>e2 - (1 - omega) * e1\<bar> \<le> (\<bar>X\<bar> + \<bar>e1\<bar>) / 2^22 + 1 / 2^148\<close>, and \<open>n\<close> more
  activations leave an error of at most \<open>(3/8)^n * \<bar>e1\<bar> + \<bar>X\<bar> / 2^21 + 1 / 2^147\<close>:
  the output approaches the input geometrically, up to a rounding residue. It need not
  reach it: with the sample \<open>7\<close>, the state \<open>y_prev = 7 - 2^-21\<close>, \<open>x_prev = 7\<close> is kept
  by every number of activations. From the start state the first \<open>step(2048)\<close> returns
  \<open>0\<close>, the second \<open>omega * 2048 = 2634023/2048\<close> and the third \<open>7227759/4096\<close>, and from
  the 18th activation on the output is exactly \<open>2048\<close>.
\<close>

theorem lpf_converges_up_to_rounding:
  assumes "length (display_number st) = DISPLAY_DIGIT_SIZE_MAX"
  shows "omega binary32_fpu = Binary32 (2634023 / 4194304)
       \<and> int_to_float binary32_fpu 1 - omega binary32_fpu = Binary32 (1560281 / 4194304)
       \<and> (\<exists>o1 st1 o2 st2 outs st'.
             adc_handler binary32_fpu True s st = Some (o1, st1)
           \<and> adc_handler binary32_fpu True s st1 = Some (o2, st2)
           \<and> run binary32_fpu (replicate n (TC6 True s)) st1 = Some (outs, st')
           \<and> (let X = value32 (uint32_to_float binary32_fpu s);
                    e1 = value32 (y_prev st1) - X;
                    e2 = value32 (y_prev st2) - X;
                    e = value32 (y_prev st') - X
                in \<bar>e2 - 1560281 / 4194304 * e1\<bar> \<le> (\<bar>X\<bar> + \<bar>e1\<bar>) / 2 ^ 22 + 1 / 2 ^ 148
                 \<and> \<bar>e\<bar> \<le> (3 / 8) ^ n * \<bar>e1\<bar> + \<bar>X\<bar> / 2 ^ 21 + 1 / 2 ^ 147))
       \<and> (\<exists>outs st'.
             run binary32_fpu (replicate n (TC6 True 7))
               ((init binary32_fpu)\<lparr>y_prev := Binary32 (14680063 / 2097152),
                                      x_prev := Binary32 7\<rparr>) = Some (outs, st')
           \<and> value32 (y_prev st') = 14680063 / 2097152)
       \<and> map_option (value32 \<circ> y_prev \<circ> snd)
            (run binary32_fpu [TC6 True 2048] (init binary32_fpu)) = Some 0
       \<and> map_option (value32 \<circ> y_prev \<circ> snd)
            (run binary32_fpu [TC6 True 2048, TC6 True 2048] (init binary32_fpu))
            = Some (value32 (omega binary32_fpu) * 2048)
       \<and> map_option (value32 \<circ> y_prev \<circ> snd)
            (run binary32_fpu [TC6 True 2048, TC6 True 2048, TC6 True 2048] (init binary32_fpu))
            = Some (7227759 / 4096)
       \<and> (\<exists>outs st'.
             run binary32_fpu (replicate (18 + m) (TC6 True 2048)) (init binary32_fpu)
               = Some (outs, st')
           \<and> value32 (y_prev st') = 2048)"
proof -
  from assms have len: "length (display_number st) = 4"
    by (simp add: DISPLAY_DIGIT_SIZE_MAX_def)
  define X where "X = value32 (uint32_to_float binary32_fpu s)"
  from binary32_step[OF len, of s] obtain o1 st1 where
    h1: "adc_handler binary32_fpu True s st = Some (o1, st1)" and
    l1: "length (display_number st1) = 4" and
    x1: "x_prev st1 = uint32_to_float binary32_fpu s"
    by blast
  from binary32_step[OF l1, of s] obtain o2 st2 where
    h2: "adc_handler binary32_fpu True s st1 = Some (o2, st2)" and
    y2: "value32 (y_prev st2) =
           round32 (round32 (1560281 / 4194304 * value32 (y_prev st1))
                     + round32 (2634023 / 4194304 * value32 (x_prev st1)))"
    by blast
  have step: "\<bar>(value32 (y_prev st2) - X) - 1560281 / 4194304 * (value32 (y_prev st1) - X)\<bar>
      \<le> (\<bar>X\<bar> + \<bar>value32 (y_prev st1) - X\<bar>) / 2 ^ 22 + 1 / 2 ^ 148"
    unfolding y2 x1 X_def by (rule lpf32_error)
  from binary32_constant_input[OF l1 x1, of n] obtain outs st' where
    r: "run binary32_fpu (replicate n (TC6 True s)) st1 = Some (outs, st')" and
    b: "\<bar>value32 (y_prev st') - X\<bar>
          \<le> (3 / 8) ^ n * \<bar>value32 (y_prev st1) - X\<bar>
             + (1 - (3 / 8) ^ n) * (8 / 5 * (\<bar>X\<bar> / 2 ^ 22 + 1 / 2 ^ 148))"
    unfolding X_def by blast
  have "(1 - (3 / 8) ^ n) * (8 / 5 * (\<bar>X\<bar> / 2 ^ 22 + 1 / 2 ^ 148))
          \<le> 1 * (8 / 5 * (\<bar>X\<bar> / 2 ^ 22 + 1 / 2 ^ 148))"
    by (intro mult_right_mono) simp_all
  also have "\<dots> \<le> \<bar>X\<bar> / 2 ^ 21 + 1 / 2 ^ 147"
    by simp
  finally have many: "\<bar>value32 (y_prev st') - X\<bar>
      \<le> (3 / 8) ^ n * \<bar>value32 (y_prev st1) - X\<bar> + \<bar>X\<bar> / 2 ^ 21 + 1 / 2 ^ 147"
    using b by linarith
  have general: "\<exists>o1 st1 o2 st2 outs st'.
             adc_handler binary32_fpu True s st = Some (o1, st1)
           \<and> adc_handler binary32_fpu True s st1 = Some (o2, st2)
           \<and> run binary32_fpu (replicate n (TC6 True s)) st1 = Some (outs, st')
           \<and> (let X = value32 (uint32_to_float binary32_fpu s);
                    e1 = value32 (y_prev st1) - X;
                    e2 = value32 (y_prev st2) - X;
                    e = value32 (y_prev st') - X
                in \<bar>e2 - 1560281 / 4194304 * e1\<bar> \<le> (\<bar>X\<bar> + \<bar>e1\<bar>) / 2 ^ 22 + 1 / 2 ^ 148
                 \<and> \<bar>e\<bar> \<le> (3 / 8) ^ n * \<bar>e1\<bar> + \<bar>X\<bar> / 2 ^ 21 + 1 / 2 ^ 147)"
    using h1 h2 r step many unfolding Let_def X_def by blast
  have stall: "\<exists>outs st'.
             run binary32_fpu (replicate n (TC6 True 7))
               ((init binary32_fpu)\<lparr>y_prev := Binary32 (14680063 / 2097152),
                                      x_prev := Binary32 7\<rparr>) = Some (outs, st')
           \<and> value32 (y_prev st') = 14680063 / 2097152"
    by (rule binary32_stall) (simp_all add: init_def)
  have second: "value32 (omega binary32_fpu) * 2048 = 2634023 / 2048"
    by (simp add: binary32_omega)
  show ?thesis
    using general stall binary32_scenario binary32_scenario_settles[of m]
    unfolding second
    by (intro conjI binary32_omega binary32_one_minus_omega)
qed

text \<open>
  The theorem at the start state, for the sample \<open>2048\<close> and two activations after the
  first.
\<close>

theorem lpf_converges_up_to_rounding_witness:
  "length (display_number (init binary32_fpu)) = DISPLAY_DIGIT_SIZE_MAX
   \<and> (\<exists>o1 st1 o2 st2 outs st'.
         adc_handler binary32_fpu True 2048 (init binary32_fpu) = Some (o1, st1)
       \<and> adc_handler binary32_fpu True 2048 st1 = Some (o2, st2)
       \<and> run binary32_fpu (replicate 2 (TC6 True 2048)) st1 = Some (outs, st')
       \<and> (let X = value32 (uint32_to_float binary32_fpu 2048);
                e1 = value32 (y_prev st1) - X;
                e2 = value32 (y_prev st2) - X;
                e = value32 (y_prev st') - X
            in \<bar>e2 - 1560281 / 4194304 * e1\<bar> \<le> (\<bar>X\<bar> + \<bar>e1\<bar>) / 2 ^ 22 + 1 / 2 ^ 148
             \<and> \<bar>e\<bar> \<le> (3 / 8) ^ 2 * \<bar>e1\<bar> + \<bar>X\<bar> / 2 ^ 21 + 1 / 2 ^ 147))
   \<and> value32 (uint32_to_float binary32_fpu 2048) = 2048
   \<and> \<bar>7227759 / 4096 - 2048 :: rat\<bar> \<le> (3 / 8) ^ 2 * \<bar>0 - 2048\<bar> + \<bar>2048\<bar> / 2 ^ 21 + 1 / 2 ^ 147"
proof -
  have h: "length (display_number (init binary32_fpu)) = DISPLAY_DIGIT_SIZE_MAX"
    by (simp add: init_def DISPLAY_DIGIT_SIZE_MAX_def)
  have x: "value32 (uint32_to_float binary32_fpu 2048) = 2048"
    by (simp add: binary32_uint32_to_float round32_2048)
  have n: "\<bar>7227759 / 4096 - 2048 :: rat\<bar> \<le> (3 / 8) ^ 2 * \<bar>0 - 2048\<bar> + \<bar>2048\<bar> / 2 ^ 21 + 1 / 2 ^ 147"
    by (simp add: power2_eq_square)
  from lpf_converges_up_to_rounding[OF h, of 2048 2 0] h x n show ?thesis
    by blast
qed

text \<open>
  The claim as it stands fails in single precision. From the start state the second
  \<open>step(2048)\<close> returns \<open>2634023/2048\<close>, which is not \<open>0.628 * 2048\<close>. And from the
  filter state \<open>y_prev = 7 - 2^-21\<close>, \<open>x_prev = 7\<close> a step on the constant input \<open>7\<close>
  returns \<open>7 - 2^-21\<close> again: the error \<open>2^-21\<close> does not shrink.
\<close>

theorem lpf_exact_convergence_counterexample:
  "map_option (value32 \<circ> y_prev \<circ> snd)
     (run binary32_fpu [TC6 True 2048, TC6 True 2048] (init binary32_fpu))
     = Some (2634023 / 2048)
   \<and> (2634023 / 2048 :: rat) \<noteq> 0.628 * 2048
   \<and> map_option (value32 \<circ> y_prev \<circ> snd)
       (adc_handler binary32_fpu True 7
          ((init binary32_fpu)\<lparr>y_prev := Binary32 (14680063 / 2097152),
                                 x_prev := Binary32 7\<rparr>))
       = Some (14680063 / 2097152)
   \<and> value32 (uint32_to_float binary32_fpu 7) = 7
   \<and> \<bar>14680063 / 2097152 - 7 :: rat\<bar> = 1 / 2 ^ 21
   \<and> (1 / 2 ^ 21 :: rat) \<noteq> (1 - 0.628) * (1 / 2 ^ 21)"
proof -
  have "\<exists>outs st'. adc_handler binary32_fpu True 7
          ((init binary32_fpu)\<lparr>y_prev := Binary32 (14680063 / 2097152),
                                 x_prev := Binary32 7\<rparr>) = Some (outs, st')
        \<and> value32 (y_prev st') = 14680063 / 2097152"
    using binary32_stall_step
            [of "(init binary32_fpu)\<lparr>y_prev := Binary32 (14680063 / 2097152),
                                       x_prev := Binary32 7\<rparr>"]
    by (auto simp: init_def)
  then have "map_option (value32 \<circ> y_prev \<circ> snd)
       (adc_handler binary32_fpu True 7
          ((init binary32_fpu)\<lparr>y_prev := Binary32 (14680063 / 2097152),
                                 x_prev := Binary32 7\<rparr>))
       = Some (14680063 / 2097152)"
    by auto
  moreover have "value32 (uint32_to_float binary32_fpu 7) = 7"
    by (simp add: binary32_uint32_to_float round32_7)
  moreover have "(2634023 / 2048 :: rat) \<noteq> 0.628 * 2048"
    "\<bar>14680063 / 2097152 - 7 :: rat\<bar> = 1 / 2 ^ 21"
    "(1 / 2 ^ 21 :: rat) \<noteq> (1 - 0.628) * (1 / 2 ^ 21)"
    by simp_all
  ultimately show ?thesis
    using binary32_scenario(2) by (intro conjI)
qed

section \<open>Monotonicity of the two rescalings\<close>

lemma round32_2048_dac: "round32 (16764925 / 32768) = 16764925 / 32768"
  unfolding round32_def
  using round_to_eq[of "16764925 / 32768" "8" "-126" 24 16764925] by simp

lemma binary32_int_to_float:
  "int_to_float binary32_fpu 0 = Binary32 0"
  "int_to_float binary32_fpu 1023 = Binary32 1023"
  "int_to_float binary32_fpu mapf_in_max = Binary32 4095"
  by (simp_all add: binary32_fpu_def mapf_in_max_def RESOLUTION_def round32_zero
        round32_1023 round32_4095)

lemma mapf_binary32_mono:
  assumes "y \<le> z"
  shows "mapf y (int_to_float binary32_fpu 0) (int_to_float binary32_fpu mapf_in_max)
                (int_to_float binary32_fpu 0) (int_to_float binary32_fpu 1023)
           \<le> mapf z (int_to_float binary32_fpu 0) (int_to_float binary32_fpu mapf_in_max)
                    (int_to_float binary32_fpu 0) (int_to_float binary32_fpu 1023)"
proof (rule mapf_mono_steps)
  fix u w :: binary32
  assume le: "u \<le> w"
  then show "u - int_to_float binary32_fpu 0 \<le> w - int_to_float binary32_fpu 0"
    by (simp add: less_eq_binary32_def minus_binary32_def round32_mono)
  have "value32 (int_to_float binary32_fpu 1023 - int_to_float binary32_fpu 0) = 1023"
    by (simp add: binary32_int_to_float minus_binary32_def round32_1023)
  with le show "u * (int_to_float binary32_fpu 1023 - int_to_float binary32_fpu 0)
      \<le> w * (int_to_float binary32_fpu 1023 - int_to_float binary32_fpu 0)"
    by (simp add: less_eq_binary32_def times_binary32_def round32_mono)
  have "value32 (int_to_float binary32_fpu mapf_in_max - int_to_float binary32_fpu 0) = 4095"
    by (simp add: binary32_int_to_float minus_binary32_def round32_4095)
  with le show "u / (int_to_float binary32_fpu mapf_in_max - int_to_float binary32_fpu 0)
      \<le> w / (int_to_float binary32_fpu mapf_in_max - int_to_float binary32_fpu 0)"
    by (simp add: less_eq_binary32_def divide_binary32_def round32_mono divide_right_mono)
  from le show "int_to_float binary32_fpu 0 + u \<le> int_to_float binary32_fpu 0 + w"
    by (simp add: less_eq_binary32_def plus_binary32_def round32_mono)
qed (rule assms)

text \<open>
  Claim C8. Both rescalings of \<open>adc_handler\<close> are monotonic non-decreasing.
  \<^item> The millivolt rescale \<open>map32(adc_raw, 0, 0xFFFF, 0, 3300)\<close>, on \<open>UINT32\<close>, is
    monotonic on \<open>[0, 0xFFFF]\<close>, which contains the native range \<open>[0, 2^R - 1]\<close> of
    the configured resolution.
  \<^item> The DAC rescale \<open>mapf(y, 0, ADC_MAX, 0, 1023)\<close> is monotonic in the firmware's
    single-precision arithmetic, for all filtered values \<open>y \<le> z\<close>: each of its four
    operations rounds, and rounding keeps the order.
  \<^item> It is monotonic in the arithmetic without rounding as well.
\<close>

theorem rescales_are_monotone:
  "2 ^ RESOLUTION - 1 \<le> (0xFFFF :: UINT32)
   \<and> (a \<le> b \<and> b \<le> 0xFFFF \<longrightarrow> map32 a 0 0xFFFF 0 3300 \<le> map32 b 0 0xFFFF 0 3300)
   \<and> (y \<le> z \<longrightarrow>
        mapf y (int_to_float binary32_fpu 0) (int_to_float binary32_fpu mapf_in_max)
               (int_to_float binary32_fpu 0) (int_to_float binary32_fpu 1023)
          \<le> mapf z (int_to_float binary32_fpu 0) (int_to_float binary32_fpu mapf_in_max)
                   (int_to_float binary32_fpu 0) (int_to_float binary32_fpu 1023))
   \<and> (u \<le> w \<longrightarrow>
        mapf u (int_to_float exact_fpu 0) (int_to_float exact_fpu mapf_in_max)
               (int_to_float exact_fpu 0) (int_to_float exact_fpu 1023)
          \<le> mapf w (int_to_float exact_fpu 0) (int_to_float exact_fpu mapf_in_max)
                   (int_to_float exact_fpu 0) (int_to_float exact_fpu 1023))"
proof (intro conjI impI)
  show "2 ^ RESOLUTION - 1 \<le> (0xFFFF :: UINT32)"
    by (simp add: RESOLUTION_def)
next
  assume "a \<le> b \<and> b \<le> 0xFFFF"
  then show "map32 a 0 0xFFFF 0 3300 \<le> map32 b 0 0xFFFF 0 3300"
    by (simp add: map32_millivolts_mono)
next
  assume "y \<le> z"
  then show "mapf y (int_to_float binary32_fpu 0) (int_to_float binary32_fpu mapf_in_max)
               (int_to_float binary32_fpu 0) (int_to_float binary32_fpu 1023)
          \<le> mapf z (int_to_float binary32_fpu 0) (int_to_float binary32_fpu mapf_in_max)
                   (int_to_float binary32_fpu 0) (int_to_float binary32_fpu 1023)"
    by (rule mapf_binary32_mono)
next
  assume "u \<le> w"
  then show "mapf u (int_to_float exact_fpu 0) (int_to_float exact_fpu mapf_in_max)
               (int_to_float exact_fpu 0) (int_to_float exact_fpu 1023)
          \<le> mapf w (int_to_float exact_fpu 0) (int_to_float exact_fpu mapf_in_max)
                   (int_to_float exact_fpu 0) (int_to_float exact_fpu 1023)"
    by (intro mapf_mono_exact) (simp_all add: exact_fpu_def mapf_in_max_def RESOLUTION_def)
qed

lemma mapf_binary32_2048:
  "mapf (Binary32 2048) (int_to_float binary32_fpu 0) (int_to_float binary32_fpu mapf_in_max)
        (int_to_float binary32_fpu 0) (int_to_float binary32_fpu 1023)
     = Binary32 (16764925 / 32768)"
  by (simp add: mapf_def binary32_int_to_float plus_binary32_def minus_binary32_def
        times_binary32_def divide_binary32_def round32_zero round32_1023 round32_4095
        round32_2048 round32_2048_by_1023 round32_2048_rescaled round32_2048_dac)

lemma mapf_binary32_4095:
  "mapf (Binary32 4095) (int_to_float binary32_fpu 0) (int_to_float binary32_fpu mapf_in_max)
        (int_to_float binary32_fpu 0) (int_to_float binary32_fpu 1023)
     = Binary32 1023"
  by (simp add: mapf_def binary32_int_to_float plus_binary32_def minus_binary32_def
        times_binary32_def divide_binary32_def round32_zero round32_1023 round32_4095
        round32_4095_by_1023)

text \<open>
  The theorem for the samples \<open>1000\<close> and \<open>4095\<close>, for the filtered values \<open>2048\<close>
  and \<open>4095\<close> in single precision, and for \<open>2047.5\<close> and \<open>4095\<close> without rounding.
\<close>

theorem rescales_are_monotone_witness:
  "(1000 :: UINT32) \<le> 4095 \<and> (4095 :: UINT32) \<le> 0xFFFF
   \<and> map32 1000 0 0xFFFF 0 3300 = 50 \<and> map32 4095 0 0xFFFF 0 3300 = 206
   \<and> (50 :: UINT32) \<le> 206
   \<and> Binary32 2048 \<le> Binary32 4095
   \<and> mapf (Binary32 2048) (int_to_float binary32_fpu 0) (int_to_float binary32_fpu mapf_in_max)
           (int_to_float binary32_fpu 0) (int_to_float binary32_fpu 1023)
         = Binary32 (16764925 / 32768)
   \<and> mapf (Binary32 4095) (int_to_float binary32_fpu 0) (int_to_float binary32_fpu mapf_in_max)
           (int_to_float binary32_fpu 0) (int_to_float binary32_fpu 1023)
         = Binary32 1023
   \<and> Binary32 (16764925 / 32768) \<le> Binary32 1023
   \<and> (2047.5 :: real) \<le> 4095
   \<and> mapf 2047.5 (int_to_float exact_fpu 0) (int_to_float exact_fpu mapf_in_max)
           (int_to_float exact_fpu 0) (int_to_float exact_fpu 1023) = 511.5
   \<and> mapf 4095 (int_to_float exact_fpu 0) (int_to_float exact_fpu mapf_in_max)
           (int_to_float exact_fpu 0) (int_to_float exact_fpu 1023) = 1023
   \<and> (511.5 :: real) \<le> 1023"
  using rescales_are_monotone[of 1000 4095 "Binary32 2048" "Binary32 4095" "2047.5" 4095]
  by (simp add: mapf_binary32_2048 mapf_binary32_4095 less_eq_binary32_def)
     (simp add: map32_def mapf_def exact_fpu_def mapf_in_max_def RESOLUTION_def)

end
